theory Spec2Isabelle
  imports Main
begin

section \<open>The regular-expression library used by the parser\<close>

text \<open>
  \<^verbatim>\<open>outputs.py\<close> calls Python's \<^verbatim>\<open>re\<close> module (\<^verbatim>\<open>re.compile\<close>, \<^verbatim>\<open>finditer\<close>,
  \<^verbatim>\<open>search\<close>, \<^verbatim>\<open>group\<close>, \<^verbatim>\<open>groups\<close>, \<^verbatim>\<open>groupdict\<close>). The module is modelled here
  for the part of the pattern language the file uses and a little more: literals, the
  classes \<^verbatim>\<open>\s \d \w\<close> and their complements, \<^verbatim>\<open>.\<close>, bracket classes with ranges and
  negation, \<^verbatim>\<open>^\<close> and \<^verbatim>\<open>$\<close>, alternation, greedy \<^verbatim>\<open>* + ?\<close>, and capturing, named and
  non-capturing groups. Characters are the 8-bit \<^typ>\<open>char\<close>; the classes are those of
  ASCII text.
\<close>

subsection \<open>Abstract syntax\<close>

datatype citem = Lit char | Range char char | Space | Digit | WordCh
  | NotSpace | NotDigit | NotWordCh

datatype atom = Item citem | Dot | Class "citem list" | NClass "citem list"

datatype re = Eps | Atom atom | Bol | Eol
  | Cat re re | Alt re re
  | Star re | Plus re | Opt re
  | Grp "string option" re

record flags =
  multiline :: bool
  dotall :: bool

definition no_flags :: flags where
  "no_flags = \<lparr>multiline = False, dotall = False\<rparr>"

definition MULTILINE_DOTALL :: flags where
  "MULTILINE_DOTALL = \<lparr>multiline = True, dotall = True\<rparr>"

definition newline :: char where
  "newline = CHR 0x0A"

definition backslash :: char where
  "backslash = CHR 0x5C"

definition is_space :: "char \<Rightarrow> bool" where
  "is_space c = (let n = (of_char c :: nat) in (9 \<le> n \<and> n \<le> 13) \<or> (28 \<le> n \<and> n \<le> 32))"

definition is_digit :: "char \<Rightarrow> bool" where
  "is_digit c = (let n = (of_char c :: nat) in 48 \<le> n \<and> n \<le> 57)"

definition is_alpha :: "char \<Rightarrow> bool" where
  "is_alpha c = (let n = (of_char c :: nat) in (65 \<le> n \<and> n \<le> 90) \<or> (97 \<le> n \<and> n \<le> 122))"

definition is_word :: "char \<Rightarrow> bool" where
  "is_word c = (is_alpha c \<or> is_digit c \<or> c = CHR ''_'')"

fun citem_ok :: "citem \<Rightarrow> char \<Rightarrow> bool" where
  "citem_ok (Lit d) c = (c = d)"
| "citem_ok (Range lo hi) c = ((of_char lo :: nat) \<le> of_char c \<and> (of_char c :: nat) \<le> of_char hi)"
| "citem_ok Space c = is_space c"
| "citem_ok Digit c = is_digit c"
| "citem_ok WordCh c = is_word c"
| "citem_ok NotSpace c = (\<not> is_space c)"
| "citem_ok NotDigit c = (\<not> is_digit c)"
| "citem_ok NotWordCh c = (\<not> is_word c)"

fun atom_ok :: "flags \<Rightarrow> atom \<Rightarrow> char \<Rightarrow> bool" where
  "atom_ok fl (Item i) c = citem_ok i c"
| "atom_ok fl Dot c = (dotall fl \<or> c \<noteq> newline)"
| "atom_ok fl (Class is) c = list_ex (\<lambda>i. citem_ok i c) is"
| "atom_ok fl (NClass is) c = (\<not> list_ex (\<lambda>i. citem_ok i c) is)"

subsection \<open>Groups of a pattern\<close>

text \<open>
  Groups are numbered from 1 by the position of their opening parenthesis, named groups
  included; \<open>group_names\<close> lists the named groups with their numbers in that order.
\<close>

primrec ngroups :: "re \<Rightarrow> nat" where
  "ngroups Eps = 0"
| "ngroups (Atom a) = 0"
| "ngroups Bol = 0"
| "ngroups Eol = 0"
| "ngroups (Cat a b) = ngroups a + ngroups b"
| "ngroups (Alt a b) = ngroups a + ngroups b"
| "ngroups (Star a) = ngroups a"
| "ngroups (Plus a) = ngroups a"
| "ngroups (Opt a) = ngroups a"
| "ngroups (Grp nm a) = Suc (ngroups a)"

primrec group_names :: "re \<Rightarrow> nat \<Rightarrow> (string \<times> nat) list" where
  "group_names Eps n = []"
| "group_names (Atom a) n = []"
| "group_names Bol n = []"
| "group_names Eol n = []"
| "group_names (Cat a b) n = group_names a n @ group_names b (n + ngroups a)"
| "group_names (Alt a b) n = group_names a n @ group_names b (n + ngroups a)"
| "group_names (Star a) n = group_names a n"
| "group_names (Plus a) n = group_names a n"
| "group_names (Opt a) n = group_names a n"
| "group_names (Grp nm a) n =
     (case nm of None \<Rightarrow> [] | Some s \<Rightarrow> [(s, Suc n)]) @ group_names a (Suc n)"

subsection \<open>The backtracking matcher\<close>

text \<open>
  The state of a match attempt: the position in the subject string, the character before
  it (for \<^verbatim>\<open>^\<close>), the rest of the subject, and the text captured by each group so far
  (latest first). The matcher is written with a continuation for what follows the
  sub-pattern, so that the first success in the engine's priority order (greedy
  repetition first, left alternative first) is the result.
\<close>

datatype mstate = MState (pos: nat) (prev: "char option") (rest: string)
  (caps: "(nat \<times> string) list")

type_synonym cont = "mstate \<Rightarrow> mstate option"

definition at_bol :: "flags \<Rightarrow> mstate \<Rightarrow> bool" where
  "at_bol fl s = (pos s = 0 \<or> (multiline fl \<and> prev s = Some newline))"

definition at_eol :: "flags \<Rightarrow> mstate \<Rightarrow> bool" where
  "at_eol fl s =
     (case rest s of
        [] \<Rightarrow> True
      | c # cs \<Rightarrow> c = newline \<and> (cs = [] \<or> multiline fl))"

text \<open>
  Greedy repetition of a sub-matcher \<open>mr\<close>: one more round first, the continuation
  otherwise. A round that consumes nothing is accepted but not followed by another round
  (the engine compares the position with that at the start of the round). So there is at
  most one round more than there are characters left; the first argument counts the
  rounds down from that number.
\<close>

primrec star_iter :: "nat \<Rightarrow> (cont \<Rightarrow> cont) \<Rightarrow> cont \<Rightarrow> cont" where
  "star_iter 0 mr k s = k s"
| "star_iter (Suc f) mr k s =
     (case mr (\<lambda>s'. if length (rest s') < length (rest s) then star_iter f mr k s' else k s') s of
        Some x \<Rightarrow> Some x
      | None \<Rightarrow> k s)"

primrec rmatch :: "re \<Rightarrow> flags \<Rightarrow> nat \<Rightarrow> cont \<Rightarrow> cont" where
  "rmatch Eps fl n k s = k s"
| "rmatch (Atom a) fl n k s =
     (case rest s of
        [] \<Rightarrow> None
      | c # cs \<Rightarrow> if atom_ok fl a c then k (MState (Suc (pos s)) (Some c) cs (caps s)) else None)"
| "rmatch Bol fl n k s = (if at_bol fl s then k s else None)"
| "rmatch Eol fl n k s = (if at_eol fl s then k s else None)"
| "rmatch (Cat a b) fl n k s = rmatch a fl n (rmatch b fl (n + ngroups a) k) s"
| "rmatch (Alt a b) fl n k s =
     (case rmatch a fl n k s of
        Some x \<Rightarrow> Some x
      | None \<Rightarrow> rmatch b fl (n + ngroups a) k s)"
| "rmatch (Star a) fl n k s = star_iter (Suc (length (rest s))) (rmatch a fl n) k s"
| "rmatch (Plus a) fl n k s =
     rmatch a fl n (\<lambda>s'. star_iter (Suc (length (rest s'))) (rmatch a fl n) k s') s"
| "rmatch (Opt a) fl n k s =
     (case rmatch a fl n k s of
        Some x \<Rightarrow> Some x
      | None \<Rightarrow> k s)"
| "rmatch (Grp nm a) fl n k s =
     rmatch a fl (Suc n)
       (\<lambda>s'. k (MState (pos s') (prev s') (rest s')
                 ((Suc n, take (length (rest s) - length (rest s')) (rest s)) # caps s'))) s"

text \<open>
  A match anchored at the state \<open>s\<close>. With \<open>must_advance\<close> an empty match is refused
  (\<^verbatim>\<open>finditer\<close> asks for this right after an empty match).
\<close>

definition match_at :: "flags \<Rightarrow> re \<Rightarrow> bool \<Rightarrow> mstate \<Rightarrow> mstate option" where
  "match_at fl r must_advance s =
     rmatch r fl 0
       (\<lambda>e. if must_advance \<and> length (rest e) = length (rest s) then None else Some e)
       (MState (pos s) (prev s) (rest s) [])"

text \<open>The leftmost match at or after \<open>s\<close>: the start state and the end state.\<close>

fun search_from :: "flags \<Rightarrow> re \<Rightarrow> bool \<Rightarrow> nat \<Rightarrow> char option \<Rightarrow> string
    \<Rightarrow> (mstate \<times> mstate) option" where
  "search_from fl r adv p pv [] =
     (case match_at fl r adv (MState p pv [] []) of
        Some e \<Rightarrow> Some (MState p pv [] [], e)
      | None \<Rightarrow> None)"
| "search_from fl r adv p pv (c # cs) =
     (case match_at fl r adv (MState p pv (c # cs) []) of
        Some e \<Rightarrow> Some (MState p pv (c # cs) [], e)
      | None \<Rightarrow> search_from fl r False (Suc p) (Some c) cs)"

text \<open>What the library's calls raise, and what a caller's \<^verbatim>\<open>postprocess\<close> may raise.\<close>

datatype error = IOError | ReError | Unsupported | AttributeError | IndexError | KeyError
  | Raised string

subsection \<open>Reading a pattern string\<close>

text \<open>
  The pattern is read character by character. A frame is an open group with the
  alternatives finished so far and the items of the alternative being read (both latest
  first). \<open>Unsupported\<close> marks pattern syntax outside the fragment modelled here
  (non-greedy and counted repetition, look-around, back-references, inline flags).
\<close>

datatype gkind = Top | NonCap | Cap "string option"

datatype frame = Frame (f_kind: gkind) (f_alts: "re list") (f_seq: "re list")

datatype cstate = CNone | CLit char | CDash char | CSet | CSetDash

datatype pmode = Normal | Quant | Esc | Open1 | Open2 | OpenP | GName string
  | ClsStart | ClsNegStart | Cls bool "citem list" cstate | ClsEsc bool "citem list"

datatype pstate = PState pmode "frame list" | PFail error

fun mk_seq :: "re list \<Rightarrow> re" where
  "mk_seq [] = Eps"
| "mk_seq [r] = r"
| "mk_seq (r # rs) = Cat r (mk_seq rs)"

fun mk_alt :: "re list \<Rightarrow> re" where
  "mk_alt [] = Eps"
| "mk_alt [r] = r"
| "mk_alt (r # rs) = Alt r (mk_alt rs)"

definition frame_re :: "frame \<Rightarrow> re" where
  "frame_re f = mk_alt (rev (mk_seq (rev (f_seq f)) # f_alts f))"

fun add_item :: "re \<Rightarrow> frame list \<Rightarrow> pstate" where
  "add_item r [] = PFail ReError"
| "add_item r (Frame k alts sq # fs) = PState Normal (Frame k alts (r # sq) # fs)"

fun quantify :: "(re \<Rightarrow> re) \<Rightarrow> frame list \<Rightarrow> pstate" where
  "quantify q (Frame k alts (x # sq) # fs) =
     (if x = Bol \<or> x = Eol then PFail ReError
      else PState Quant (Frame k alts (q x # sq) # fs))"
| "quantify q fs = PFail ReError"

fun new_alt :: "frame list \<Rightarrow> pstate" where
  "new_alt [] = PFail ReError"
| "new_alt (Frame k alts sq # fs) = PState Normal (Frame k (mk_seq (rev sq) # alts) [] # fs)"

fun close_group :: "frame list \<Rightarrow> pstate" where
  "close_group (f # g # fs) =
     (case f_kind f of
        Top \<Rightarrow> PFail ReError
      | NonCap \<Rightarrow> add_item (frame_re f) (g # fs)
      | Cap nm \<Rightarrow> add_item (Grp nm (frame_re f)) (g # fs))"
| "close_group fs = PFail ReError"

definition esc_item :: "char \<Rightarrow> citem option" where
  "esc_item c =
     (if c = CHR ''d'' then Some Digit
      else if c = CHR ''D'' then Some NotDigit
      else if c = CHR ''s'' then Some Space
      else if c = CHR ''S'' then Some NotSpace
      else if c = CHR ''w'' then Some WordCh
      else if c = CHR ''W'' then Some NotWordCh
      else if c = CHR ''n'' then Some (Lit newline)
      else if c = CHR ''t'' then Some (Lit (CHR 0x09))
      else if c = CHR ''r'' then Some (Lit (CHR 0x0D))
      else if c = CHR ''f'' then Some (Lit (CHR 0x0C))
      else if c = CHR ''v'' then Some (Lit (CHR 0x0B))
      else if c = CHR ''a'' then Some (Lit (CHR 0x07))
      else if is_alpha c \<or> is_digit c then None
      else Some (Lit c))"

definition step_normal :: "char \<Rightarrow> frame list \<Rightarrow> pstate" where
  "step_normal c stk =
     (if c = backslash then PState Esc stk
      else if c = CHR ''('' then PState Open1 stk
      else if c = CHR '')'' then close_group stk
      else if c = CHR ''['' then PState ClsStart stk
      else if c = CHR ''|'' then new_alt stk
      else if c = CHR ''*'' then quantify Star stk
      else if c = CHR ''+'' then quantify Plus stk
      else if c = CHR ''?'' then quantify Opt stk
      else if c = CHR ''{'' then PFail Unsupported
      else if c = CHR ''.'' then add_item (Atom Dot) stk
      else if c = CHR ''^'' then add_item Bol stk
      else if c = CHR ''$'' then add_item Eol stk
      else add_item (Atom (Item (Lit c))) stk)"

definition close_class :: "bool \<Rightarrow> citem list \<Rightarrow> frame list \<Rightarrow> pstate" where
  "close_class neg items stk =
     add_item (Atom (if neg then NClass (rev items) else Class (rev items))) stk"

definition cls_step :: "bool \<Rightarrow> citem list \<Rightarrow> cstate \<Rightarrow> char \<Rightarrow> frame list \<Rightarrow> pstate" where
  "cls_step neg items cs c stk =
     (case cs of
        CNone \<Rightarrow>
          (if c = CHR '']'' then close_class neg items stk
           else if c = backslash then PState (ClsEsc neg items) stk
           else PState (Cls neg items (CLit c)) stk)
      | CLit d \<Rightarrow>
          (if c = CHR '']'' then close_class neg (Lit d # items) stk
           else if c = backslash then PState (ClsEsc neg (Lit d # items)) stk
           else if c = CHR ''-'' then PState (Cls neg items (CDash d)) stk
           else PState (Cls neg (Lit d # items) (CLit c)) stk)
      | CDash d \<Rightarrow>
          (if c = CHR '']'' then close_class neg (Lit (CHR ''-'') # Lit d # items) stk
           else if c = backslash then PFail Unsupported
           else if (of_char d :: nat) \<le> of_char c
             then PState (Cls neg (Range d c # items) CNone) stk
           else PFail ReError)
      | CSet \<Rightarrow>
          (if c = CHR '']'' then close_class neg items stk
           else if c = backslash then PState (ClsEsc neg items) stk
           else if c = CHR ''-'' then PState (Cls neg items CSetDash) stk
           else PState (Cls neg items (CLit c)) stk)
      | CSetDash \<Rightarrow>
          (if c = CHR '']'' then close_class neg (Lit (CHR ''-'') # items) stk
           else PFail ReError))"

definition is_identifier :: "string \<Rightarrow> bool" where
  "is_identifier s =
     (case s of [] \<Rightarrow> False | c # cs \<Rightarrow> (is_alpha c \<or> c = CHR ''_'') \<and> list_all is_word cs)"

definition step :: "char \<Rightarrow> pstate \<Rightarrow> pstate" where
  "step c st =
     (case st of
        PFail e \<Rightarrow> PFail e
      | PState mode stk \<Rightarrow>
          (case mode of
             Normal \<Rightarrow> step_normal c stk
           | Quant \<Rightarrow>
               (if c = CHR ''*'' \<or> c = CHR ''+'' \<or> c = CHR ''?'' then PFail Unsupported
                else step_normal c stk)
           | Esc \<Rightarrow>
               (case esc_item c of
                  None \<Rightarrow> PFail Unsupported
                | Some i \<Rightarrow> add_item (Atom (Item i)) stk)
           | Open1 \<Rightarrow>
               (if c = CHR ''?'' then PState Open2 stk
                else step_normal c (Frame (Cap None) [] [] # stk))
           | Open2 \<Rightarrow>
               (if c = CHR '':'' then PState Normal (Frame NonCap [] [] # stk)
                else if c = CHR ''P'' then PState OpenP stk
                else PFail Unsupported)
           | OpenP \<Rightarrow>
               (if c = CHR ''<'' then PState (GName []) stk else PFail Unsupported)
           | GName cs \<Rightarrow>
               (if c = CHR ''>''
                then (if is_identifier (rev cs)
                      then PState Normal (Frame (Cap (Some (rev cs))) [] [] # stk)
                      else PFail ReError)
                else PState (GName (c # cs)) stk)
           | ClsStart \<Rightarrow>
               (if c = CHR ''^'' then PState ClsNegStart stk
                else if c = CHR '']'' then PState (Cls False [] (CLit c)) stk
                else cls_step False [] CNone c stk)
           | ClsNegStart \<Rightarrow>
               (if c = CHR '']'' then PState (Cls True [] (CLit c)) stk
                else cls_step True [] CNone c stk)
           | Cls neg items cs \<Rightarrow> cls_step neg items cs c stk
           | ClsEsc neg items \<Rightarrow>
               (case esc_item c of
                  None \<Rightarrow> PFail Unsupported
                | Some (Lit d) \<Rightarrow> PState (Cls neg items (CLit d)) stk
                | Some i \<Rightarrow> PState (Cls neg (i # items) CSet) stk)))"

fun finish :: "pstate \<Rightarrow> error + re" where
  "finish (PFail e) = Inl e"
| "finish (PState Normal [Frame Top alts sq]) = Inr (frame_re (Frame Top alts sq))"
| "finish (PState Quant [Frame Top alts sq]) = Inr (frame_re (Frame Top alts sq))"
| "finish (PState mode stk) = Inl ReError"

definition parse :: "string \<Rightarrow> error + re" where
  "parse src = finish (fold step src (PState Normal [Frame Top [] []]))"

subsection \<open>Compiled patterns and match objects\<close>

datatype pattern = Pattern (p_re: re) (p_flags: flags)

text \<open>\<^verbatim>\<open>re.compile\<close>: a group name may be defined once only.\<close>

definition re_compile :: "string \<Rightarrow> flags \<Rightarrow> error + pattern" where
  "re_compile src fl =
     (case parse src of
        Inl e \<Rightarrow> Inl e
      | Inr r \<Rightarrow>
          if distinct (map fst (group_names r 0)) then Inr (Pattern r fl) else Inl ReError)"

datatype match = Match (m_re: re) (m_start: nat) (m_end: nat) (m_caps: "(nat \<times> string) list")

definition mk_match :: "pattern \<Rightarrow> mstate \<times> mstate \<Rightarrow> match" where
  "mk_match p be = Match (p_re p) (pos (fst be)) (pos (snd be)) (caps (snd be))"

text \<open>\<^verbatim>\<open>pattern.search(string)\<close>\<close>

definition search :: "pattern \<Rightarrow> string \<Rightarrow> match option" where
  "search p subject =
     map_option (mk_match p) (search_from (p_flags p) (p_re p) False 0 None subject)"

text \<open>
  \<^verbatim>\<open>match.group(name)\<close>, \<^verbatim>\<open>match.groups()\<close> and \<^verbatim>\<open>match.groupdict()\<close>: a group that
  took no part in the match has the value \<^verbatim>\<open>None\<close>.
\<close>

definition group :: "match \<Rightarrow> string \<Rightarrow> error + string option" where
  "group mt name =
     (case map_of (group_names (m_re mt) 0) name of
        None \<Rightarrow> Inl IndexError
      | Some i \<Rightarrow> Inr (map_of (m_caps mt) i))"

definition groups :: "match \<Rightarrow> string option list" where
  "groups mt = map (map_of (m_caps mt)) [1 ..< Suc (ngroups (m_re mt))]"

definition groupdict :: "match \<Rightarrow> (string \<times> string option) list" where
  "groupdict mt = map (\<lambda>(nm, i). (nm, map_of (m_caps mt) i)) (group_names (m_re mt) 0)"

subsection \<open>Scanning for all matches\<close>

text \<open>
  A matcher only moves forward: the state it hands to its continuation has a suffix of
  the subject left, its position has advanced by what was consumed, and every group
  text it has added is a piece of what was consumed.
\<close>

definition consumed :: "mstate \<Rightarrow> mstate \<Rightarrow> nat" where
  "consumed s s' = length (rest s) - length (rest s')"

definition piece_of :: "string \<Rightarrow> nat \<Rightarrow> string \<Rightarrow> bool" where
  "piece_of c n subject \<longleftrightarrow>
     (\<exists>k. k + length c \<le> n \<and> c = take (length c) (drop k subject))"

definition forward :: "mstate \<Rightarrow> mstate \<Rightarrow> bool" where
  "forward s s' \<longleftrightarrow>
     length (rest s') \<le> length (rest s) \<and>
     pos s' = pos s + consumed s s' \<and>
     rest s' = drop (consumed s s') (rest s) \<and>
     (\<forall>ic \<in> set (caps s'). ic \<in> set (caps s) \<or> piece_of (snd ic) (consumed s s') (rest s))"

lemma forward_refl: "forward s s"
  by (simp add: forward_def consumed_def)

lemma forwardD:
  assumes "forward s s'"
  shows "length (rest s') \<le> length (rest s)"
    and "pos s' = pos s + (length (rest s) - length (rest s'))"
    and "rest s' = drop (length (rest s) - length (rest s')) (rest s)"
  using assms by (simp_all add: forward_def consumed_def)

lemma forward_trans:
  assumes "forward s t" and "forward t u"
  shows "forward s u"
proof -
  from assms have l: "length (rest t) \<le> length (rest s)" "length (rest u) \<le> length (rest t)"
    by (simp_all add: forward_def)
  then have c: "consumed s u = consumed s t + consumed t u"
    by (simp add: consumed_def)
  from assms have r: "rest t = drop (consumed s t) (rest s)"
    "rest u = drop (consumed t u) (rest t)"
    by (simp_all add: forward_def)
  have "rest u = drop (consumed t u) (drop (consumed s t) (rest s))"
    using r by simp
  also have "\<dots> = drop (consumed s u) (rest s)"
    using c by (simp add: add.commute)
  finally have ru: "rest u = drop (consumed s u) (rest s)" .
  from assms c have pu: "pos u = pos s + consumed s u"
    by (simp add: forward_def)
  have cu: "ic \<in> set (caps s) \<or> piece_of (snd ic) (consumed s u) (rest s)"
    if ic: "ic \<in> set (caps u)" for ic
  proof -
    from assms(2) ic have "ic \<in> set (caps t) \<or> piece_of (snd ic) (consumed t u) (rest t)"
      by (simp add: forward_def)
    then show ?thesis
    proof
      assume "ic \<in> set (caps t)"
      with assms(1) have "ic \<in> set (caps s) \<or> piece_of (snd ic) (consumed s t) (rest s)"
        by (simp add: forward_def)
      then show ?thesis using c by (auto simp: piece_of_def)
    next
      assume "piece_of (snd ic) (consumed t u) (rest t)"
      then obtain k where k: "k + length (snd ic) \<le> consumed t u"
        "snd ic = take (length (snd ic)) (drop k (rest t))"
        unfolding piece_of_def by blast
      from k(2) r(1) have "snd ic = take (length (snd ic)) (drop (consumed s t + k) (rest s))"
        by (simp add: add.commute)
      moreover from k(1) c have "(consumed s t + k) + length (snd ic) \<le> consumed s u"
        by simp
      ultimately have "piece_of (snd ic) (consumed s u) (rest s)"
        unfolding piece_of_def by blast
      then show ?thesis ..
    qed
  qed
  from l ru pu cu show ?thesis by (simp add: forward_def)
qed

definition passes_on :: "(cont \<Rightarrow> cont) \<Rightarrow> bool" where
  "passes_on mr \<longleftrightarrow>
     (\<forall>k s x. mr k s = Some x \<longrightarrow> (\<exists>s'. k s' = Some x \<and> forward s s'))"

lemma star_iter_passes_on:
  assumes "passes_on mr"
  shows "star_iter f mr k s = Some x \<Longrightarrow> \<exists>s'. k s' = Some x \<and> forward s s'"
proof (induction f arbitrary: s)
  case 0
  then show ?case using forward_refl by auto
next
  case (Suc f)
  let ?k' = "\<lambda>s'. if length (rest s') < length (rest s) then star_iter f mr k s' else k s'"
  show ?case
  proof (cases "mr ?k' s")
    case None
    with Suc.prems have "k s = Some x" by simp
    then show ?thesis using forward_refl by auto
  next
    case (Some y)
    with Suc.prems have "mr ?k' s = Some x" by simp
    with assms obtain t where t: "?k' t = Some x" "forward s t"
      unfolding passes_on_def by blast
    show ?thesis
    proof (cases "length (rest t) < length (rest s)")
      case True
      with t(1) have "star_iter f mr k t = Some x" by simp
      from Suc.IH[OF this] obtain u where "k u = Some x" "forward t u" by blast
      with t(2) show ?thesis using forward_trans by blast
    next
      case False
      with t(1) have "k t = Some x" by simp
      with t(2) show ?thesis by blast
    qed
  qed
qed

lemma rmatch_passes_on: "passes_on (rmatch r fl n)"
proof (induction r arbitrary: n)
  case Eps
  show ?case unfolding passes_on_def using forward_refl by auto
next
  case (Atom a)
  show ?case unfolding passes_on_def
  proof (intro allI impI)
    fix k s x
    assume a: "rmatch (Atom a) fl n k s = Some x"
    then obtain c cs where cs: "rest s = c # cs" by (cases "rest s") auto
    with a have "k (MState (Suc (pos s)) (Some c) cs (caps s)) = Some x"
      by (simp split: if_splits)
    moreover have "forward s (MState (Suc (pos s)) (Some c) cs (caps s))"
      using cs by (simp add: forward_def consumed_def)
    ultimately show "\<exists>s'. k s' = Some x \<and> forward s s'" by blast
  qed
next
  case Bol
  show ?case unfolding passes_on_def using forward_refl by (auto split: if_splits)
next
  case Eol
  show ?case unfolding passes_on_def using forward_refl by (auto split: if_splits)
next
  case (Cat a b)
  show ?case unfolding passes_on_def
  proof (intro allI impI)
    fix k s x
    assume "rmatch (Cat a b) fl n k s = Some x"
    then have "rmatch a fl n (rmatch b fl (n + ngroups a) k) s = Some x" by simp
    with Cat.IH(1) obtain t where t: "rmatch b fl (n + ngroups a) k t = Some x" "forward s t"
      unfolding passes_on_def by blast
    with Cat.IH(2) obtain u where "k u = Some x" "forward t u"
      unfolding passes_on_def by blast
    with t(2) show "\<exists>s'. k s' = Some x \<and> forward s s'" using forward_trans by blast
  qed
next
  case (Alt a b)
  show ?case unfolding passes_on_def
  proof (intro allI impI)
    fix k s x
    assume h: "rmatch (Alt a b) fl n k s = Some x"
    show "\<exists>s'. k s' = Some x \<and> forward s s'"
    proof (cases "rmatch a fl n k s")
      case None
      with h have "rmatch b fl (n + ngroups a) k s = Some x" by simp
      with Alt.IH(2) show ?thesis unfolding passes_on_def by blast
    next
      case (Some y)
      with h have "rmatch a fl n k s = Some x" by simp
      with Alt.IH(1) show ?thesis unfolding passes_on_def by blast
    qed
  qed
next
  case (Star a)
  show ?case unfolding passes_on_def
  proof (intro allI impI)
    fix k s x
    assume "rmatch (Star a) fl n k s = Some x"
    then have "star_iter (Suc (length (rest s))) (rmatch a fl n) k s = Some x"
      by (simp del: star_iter.simps)
    from star_iter_passes_on[OF Star.IH this]
    show "\<exists>s'. k s' = Some x \<and> forward s s'" .
  qed
next
  case (Plus a)
  show ?case unfolding passes_on_def
  proof (intro allI impI)
    fix k s x
    assume "rmatch (Plus a) fl n k s = Some x"
    then have "rmatch a fl n (\<lambda>s'. star_iter (Suc (length (rest s'))) (rmatch a fl n) k s') s
        = Some x"
      by (simp del: star_iter.simps)
    with Plus.IH obtain t where
      t: "star_iter (Suc (length (rest t))) (rmatch a fl n) k t = Some x" "forward s t"
      unfolding passes_on_def by blast
    from star_iter_passes_on[OF Plus.IH t(1)] obtain u where "k u = Some x" "forward t u"
      by blast
    with t(2) show "\<exists>s'. k s' = Some x \<and> forward s s'" using forward_trans by blast
  qed
next
  case (Opt a)
  show ?case unfolding passes_on_def
  proof (intro allI impI)
    fix k s x
    assume h: "rmatch (Opt a) fl n k s = Some x"
    show "\<exists>s'. k s' = Some x \<and> forward s s'"
    proof (cases "rmatch a fl n k s")
      case None
      with h have "k s = Some x" by simp
      then show ?thesis using forward_refl by blast
    next
      case (Some y)
      with h have "rmatch a fl n k s = Some x" by simp
      with Opt.IH show ?thesis unfolding passes_on_def by blast
    qed
  qed
next
  case (Grp nm a)
  show ?case unfolding passes_on_def
  proof (intro allI impI)
    fix k :: cont and s x
    let ?k' = "\<lambda>s'. k (MState (pos s') (prev s') (rest s')
      ((Suc n, take (length (rest s) - length (rest s')) (rest s)) # caps s'))"
    assume "rmatch (Grp nm a) fl n k s = Some x"
    then have "rmatch a fl (Suc n) ?k' s = Some x" by simp
    with Grp.IH obtain t where t: "?k' t = Some x" "forward s t"
      unfolding passes_on_def by blast
    let ?t' = "MState (pos t) (prev t) (rest t)
      ((Suc n, take (length (rest s) - length (rest t)) (rest s)) # caps t)"
    from t(2) have "take (consumed s t) (rest s) = take (length (take (consumed s t) (rest s)))
        (drop 0 (rest s))" and "0 + length (take (consumed s t) (rest s)) \<le> consumed s t"
      by (simp_all add: forward_def consumed_def)
    then have "piece_of (take (consumed s t) (rest s)) (consumed s t) (rest s)"
      unfolding piece_of_def by blast
    with t(2) have "forward s ?t'" by (simp add: forward_def consumed_def)
    with t(1) show "\<exists>s'. k s' = Some x \<and> forward s s'" by blast
  qed
qed

lemma match_at_forward:
  assumes "match_at fl r adv s = Some e"
  shows "forward s e" and "adv \<Longrightarrow> length (rest e) < length (rest s)"
proof -
  let ?k = "\<lambda>e. if adv \<and> length (rest e) = length (rest s) then None else Some e"
  let ?s = "MState (pos s) (prev s) (rest s) []"
  from assms have "rmatch r fl 0 ?k ?s = Some e" by (simp add: match_at_def)
  with rmatch_passes_on[of r fl 0] obtain t where t: "?k t = Some e" "forward ?s t"
    unfolding passes_on_def by blast
  from t(1) have te: "t = e" and na: "\<not> (adv \<and> length (rest e) = length (rest s))"
    by (auto split: if_splits)
  from t(2) te show f: "forward s e" by (simp add: forward_def consumed_def)
  show "length (rest e) < length (rest s)" if "adv"
    using that na f by (auto simp: forward_def)
qed

lemma search_from_forward:
  assumes "search_from fl r adv p pv cs = Some (b, e)"
  shows "forward (MState p pv cs []) b \<and> forward b e \<and>
    (adv \<and> length (rest b) = length cs \<longrightarrow> length (rest e) < length cs)"
  using assms
proof (induction cs arbitrary: adv p pv)
  case Nil
  then obtain e' where m: "match_at fl r adv (MState p pv [] []) = Some e'"
    by (cases "match_at fl r adv (MState p pv [] [])") auto
  with Nil have be: "b = MState p pv [] []" "e = e'" by auto
  from match_at_forward[OF m] be show ?case by (auto simp: forward_refl)
next
  case (Cons c cs)
  show ?case
  proof (cases "match_at fl r adv (MState p pv (c # cs) [])")
    case (Some e')
    with Cons.prems have be: "b = MState p pv (c # cs) []" "e = e'" by auto
    from match_at_forward[OF Some] be show ?thesis by (auto simp: forward_refl)
  next
    case None
    with Cons.prems have "search_from fl r False (Suc p) (Some c) cs = Some (b, e)" by simp
    from Cons.IH[OF this] have ih: "forward (MState (Suc p) (Some c) cs []) b" "forward b e"
      by auto
    have "forward (MState p pv (c # cs) []) (MState (Suc p) (Some c) cs [])"
      by (simp add: forward_def consumed_def)
    with ih(1) have f: "forward (MState p pv (c # cs) []) b" using forward_trans by blast
    from ih(1) have "length (rest b) \<le> length cs" by (simp add: forward_def)
    with f ih(2) show ?thesis by auto
  qed
qed

text \<open>
  \<^verbatim>\<open>pattern.finditer(string)\<close>: the matches from left to right, each search starting
  where the match before it ended; after an empty match the next one at the same place
  must be non-empty.
\<close>

function finditer_from :: "pattern \<Rightarrow> bool \<Rightarrow> nat \<Rightarrow> char option \<Rightarrow> string \<Rightarrow> match list" where
  "finditer_from p adv q pv cs =
     (case search_from (p_flags p) (p_re p) adv q pv cs of
        None \<Rightarrow> []
      | Some (b, e) \<Rightarrow>
          mk_match p (b, e) # finditer_from p (pos e = pos b) (pos e) (prev e) (rest e))"
  by pat_completeness auto
termination
proof (relation "measure (\<lambda>(p, adv, q, pv, cs). 2 * length cs + (if adv then 0 else 1))")
  show "wf (measure (\<lambda>(p, adv, q, pv, cs). 2 * length cs + (if adv then 0 else 1)))" by simp
next
  fix p adv q pv cs x2 b e
  assume "search_from (p_flags p) (p_re p) adv q pv cs = Some x2" and "(b, e) = x2"
  then have s: "search_from (p_flags p) (p_re p) adv q pv cs = Some (b, e)" by simp
  from search_from_forward[OF s] have
    fb: "forward (MState q pv cs []) b" and fe: "forward b e" and
    ad: "adv \<and> length (rest b) = length cs \<longrightarrow> length (rest e) < length cs" by auto
  from fb have lb: "length (rest b) \<le> length cs" by (simp add: forward_def)
  from fe have le: "length (rest e) \<le> length (rest b)"
    and pe: "pos e = pos b + (length (rest b) - length (rest e))" by (rule forwardD)+
  show "((p, pos e = pos b, pos e, prev e, rest e), (p, adv, q, pv, cs))
      \<in> measure (\<lambda>(p, adv, q, pv, cs). 2 * length cs + (if adv then 0 else 1))"
  proof (cases "length (rest e) < length cs")
    case True
    then show ?thesis by auto
  next
    case False
    with lb le have eq: "length (rest e) = length cs" "length (rest b) = length cs" by auto
    with ad have "\<not> adv" by auto
    moreover from pe eq have "pos e = pos b" by simp
    ultimately show ?thesis using eq by auto
  qed
qed

declare finditer_from.simps [simp del]

definition finditer :: "pattern \<Rightarrow> string \<Rightarrow> match list" where
  "finditer p subject = finditer_from p False 0 None subject"

section \<open>Python values, files and the line scanner\<close>

text \<open>
  The values stored in \<^verbatim>\<open>self.data\<close>: what \<^verbatim>\<open>postprocess\<close> returns (a leaf), lists and
  dictionaries (in insertion order). \<^verbatim>\<open>postprocess\<close> receives a captured string, or
  \<^verbatim>\<open>None\<close> for a group that took no part in the match, and returns a value or raises.
\<close>

datatype 'v pyval = Leaf 'v | PyList "'v pyval list" | PyDict "(string \<times> 'v pyval) list"

type_synonym 'v postprocess = "string option \<Rightarrow> error + 'v"

text \<open>The default \<^verbatim>\<open>postprocess=str\<close>.\<close>

definition py_str :: "string postprocess" where
  "py_str g = (case g of None \<Rightarrow> Inr ''None'' | Some s \<Rightarrow> Inr s)"

text \<open>A comprehension \<^verbatim>\<open>[f(x) for x in xs]\<close> whose \<open>f\<close> may raise: the first error ends it.\<close>

fun map_err :: "('a \<Rightarrow> error + 'b) \<Rightarrow> 'a list \<Rightarrow> error + 'b list" where
  "map_err f [] = Inr []"
| "map_err f (x # xs) =
     (case f x of
        Inl e \<Rightarrow> Inl e
      | Inr y \<Rightarrow> (case map_err f xs of Inl e \<Rightarrow> Inl e | Inr ys \<Rightarrow> Inr (y # ys)))"

text \<open>\<^verbatim>\<open>s.split("\n")\<close>\<close>

fun split_nl :: "string \<Rightarrow> string list" where
  "split_nl [] = [[]]"
| "split_nl (c # cs) =
     (if c = newline then [] # split_nl cs
      else (case split_nl cs of [] \<Rightarrow> [[c]] | l # ls \<Rightarrow> (c # l) # ls))"

text \<open>Iterating over a text file: the lines, each with its newline.\<close>

fun file_lines :: "string \<Rightarrow> string list" where
  "file_lines [] = []"
| "file_lines (c # cs) =
     (if c = newline then [c] # file_lines cs
      else (case file_lines cs of [] \<Rightarrow> [[c]] | l # ls \<Rightarrow> (c # l) # ls))"

text \<open>
  \<^verbatim>\<open>monty.io.reverse_readfile\<close> on an uncompressed file: the lines from the last to the
  first, without their newlines. It looks for the newlines from the end and stops when
  nothing is left before the one it found: nothing for an empty file, and no empty first
  line for a file that starts with a newline.
\<close>

definition reverse_readfile :: "string \<Rightarrow> string list" where
  "reverse_readfile text =
     (case text of
        [] \<Rightarrow> []
      | c # cs \<Rightarrow> if c = newline then rev (split_nl cs) else rev (split_nl text))"

text \<open>The files that can be opened, by name, with their text.\<close>

type_synonym files = "string \<rightharpoonup> string"

text \<open>
  \<^verbatim>\<open>monty.re.regrep\<close>. Its result maps a key to one entry per matching line, in scan
  order: the list of the postprocessed groups of the match and the line number (negated
  when reading in reverse). A key without a match is absent. This is the shape that
  the docstring of \<^verbatim>\<open>read_pattern\<close> describes ("lists of lists").
\<close>

type_synonym 'v matches = "string \<rightharpoonup> ('v list \<times> int) list"

fun compile_all :: "(string \<times> string) list \<Rightarrow> error + (string \<times> pattern) list" where
  "compile_all [] = Inr []"
| "compile_all ((k, v) # ps) =
     (case re_compile v no_flags of
        Inl e \<Rightarrow> Inl e
      | Inr p \<Rightarrow> (case compile_all ps of Inl e \<Rightarrow> Inl e | Inr cps \<Rightarrow> Inr ((k, p) # cps)))"

definition matches_get :: "'v matches \<Rightarrow> string \<Rightarrow> ('v list \<times> int) list" where
  "matches_get ms k = (case ms k of None \<Rightarrow> [] | Some xs \<Rightarrow> xs)"

fun scan_line :: "(string \<times> pattern) list \<Rightarrow> 'v postprocess \<Rightarrow> string \<Rightarrow> int \<Rightarrow> 'v matches
    \<Rightarrow> error + 'v matches" where
  "scan_line [] pp l i ms = Inr ms"
| "scan_line ((k, p) # ps) pp l i ms =
     (case search p l of
        None \<Rightarrow> scan_line ps pp l i ms
      | Some m \<Rightarrow>
          (case map_err pp (groups m) of
             Inl e \<Rightarrow> Inl e
           | Inr gs \<Rightarrow> scan_line ps pp l i (ms(k \<mapsto> matches_get ms k @ [(gs, i)]))))"

fun scan_lines :: "(string \<times> pattern) list \<Rightarrow> 'v postprocess \<Rightarrow> bool \<Rightarrow> bool \<Rightarrow> string list
    \<Rightarrow> nat \<Rightarrow> 'v matches \<Rightarrow> error + 'v matches" where
  "scan_lines cps pp reverse terminate_on_match [] i ms = Inr ms"
| "scan_lines cps pp reverse terminate_on_match (l # ls) i ms =
     (case scan_line cps pp l (if reverse then - int i else int i) ms of
        Inl e \<Rightarrow> Inl e
      | Inr ms' \<Rightarrow>
          if terminate_on_match \<and> list_all (\<lambda>(k, p). matches_get ms' k \<noteq> []) cps
          then Inr ms'
          else scan_lines cps pp reverse terminate_on_match ls (Suc i) ms')"

definition regrep :: "files \<Rightarrow> string \<Rightarrow> (string \<times> string) list \<Rightarrow> bool \<Rightarrow> bool
    \<Rightarrow> 'v postprocess \<Rightarrow> error + 'v matches" where
  "regrep fs filename patterns reverse terminate_on_match pp =
     (case compile_all patterns of
        Inl e \<Rightarrow> Inl e
      | Inr cps \<Rightarrow>
          (case fs filename of
             None \<Rightarrow> Inl IOError
           | Some text \<Rightarrow>
               scan_lines cps pp reverse terminate_on_match
                 (if reverse then reverse_readfile text else file_lines text) 0 Map.empty))"

section \<open>\<^verbatim>\<open>QCCalc\<close>\<close>

text \<open>
  The object: its file name and its \<^verbatim>\<open>data\<close> dictionary. A method takes the files and
  the object and returns what the call returns or raises, together with the object
  after the call. Leading underscores of the Python names are dropped.
\<close>

record 'v qccalc =
  filename :: string
  data :: "string \<rightharpoonup> 'v pyval"

text \<open>
  The pattern strings of the source are raw string literals. A string literal of
  Isabelle cannot hold a backslash, so they are written here with \<^verbatim>\<open>/\<close> for each
  backslash and passed through \<open>raw\<close>, which puts the backslashes back (no pattern of
  the source contains \<^verbatim>\<open>/\<close>).
\<close>

definition raw :: "string \<Rightarrow> string" where
  "raw s = map (\<lambda>c. if c = CHR ''/'' then backslash else c) s"

subsection \<open>\<^verbatim>\<open>read_pattern\<close>\<close>

definition store_matches :: "'v matches \<Rightarrow> string \<Rightarrow> 'v qccalc \<Rightarrow> 'v qccalc" where
  "store_matches ms k self =
     self\<lparr>data := (data self)(k \<mapsto> PyList (map (\<lambda>i. PyList (map Leaf (fst i))) (matches_get ms k)))\<rparr>"

definition read_pattern :: "files \<Rightarrow> (string \<times> string) list \<Rightarrow> bool \<Rightarrow> bool \<Rightarrow> 'v postprocess
    \<Rightarrow> 'v qccalc \<Rightarrow> (error + unit) \<times> 'v qccalc" where
  "read_pattern fs patterns reverse terminate_on_match pp self =
     (case regrep fs (filename self) patterns reverse terminate_on_match pp of
        Inl e \<Rightarrow> (Inl e, self)
      | Inr ms \<Rightarrow> (Inr (), fold (store_matches ms) (map fst patterns) self))"

subsection \<open>\<^verbatim>\<open>read_table_pattern\<close>\<close>

definition table_pattern_text :: "string \<Rightarrow> string \<Rightarrow> string \<Rightarrow> string" where
  "table_pattern_text header_pattern row_pattern footer_pattern =
     header_pattern @ raw ''/s*^(?P<table_body>(?:/s+'' @ row_pattern @ raw '')+)/s+''
       @ footer_pattern"

text \<open>The body of the inner loop: one line of a table body.\<close>

definition process_line :: "pattern \<Rightarrow> 'v postprocess \<Rightarrow> string \<Rightarrow> error + 'v pyval" where
  "process_line rp pp line =
     (case search rp line of
        None \<Rightarrow> Inl AttributeError
      | Some ml \<Rightarrow>
          (let d = groupdict ml in
           if length d > 0
           then (case map_err (\<lambda>(k, v). case pp v of Inl e \<Rightarrow> Inl e | Inr w \<Rightarrow> Inr (k, Leaf w)) d of
                   Inl e \<Rightarrow> Inl e
                 | Inr kvs \<Rightarrow> Inr (PyDict kvs))
           else (case map_err pp (groups ml) of
                   Inl e \<Rightarrow> Inl e
                 | Inr vs \<Rightarrow> Inr (PyList (map Leaf vs)))))"

text \<open>The body of the outer loop: one match of the table pattern.\<close>

definition process_table :: "pattern \<Rightarrow> 'v postprocess \<Rightarrow> match \<Rightarrow> error + 'v pyval" where
  "process_table rp pp mt =
     (case group mt ''table_body'' of
        Inl e \<Rightarrow> Inl e
      | Inr None \<Rightarrow> Inl AttributeError
      | Inr (Some table_body_text) \<Rightarrow>
          (case map_err (process_line rp pp) (split_nl table_body_text) of
             Inl e \<Rightarrow> Inl e
           | Inr table_contents \<Rightarrow> Inr (PyList table_contents)))"

definition read_table_pattern :: "files \<Rightarrow> string \<Rightarrow> string \<Rightarrow> string \<Rightarrow> 'v postprocess
    \<Rightarrow> string option \<Rightarrow> bool \<Rightarrow> 'v qccalc \<Rightarrow> (error + 'v pyval) \<times> 'v qccalc" where
  "read_table_pattern fs header_pattern row_pattern footer_pattern pp attribute_name
       last_one_only self =
     (case fs (filename self) of
        None \<Rightarrow> (Inl IOError, self)
      | Some text \<Rightarrow>
     (case re_compile (table_pattern_text header_pattern row_pattern footer_pattern)
             MULTILINE_DOTALL of
        Inl e \<Rightarrow> (Inl e, self)
      | Inr table_pattern \<Rightarrow>
     (case re_compile row_pattern no_flags of
        Inl e \<Rightarrow> (Inl e, self)
      | Inr rp \<Rightarrow>
     (case map_err (process_table rp pp) (finditer table_pattern text) of
        Inl e \<Rightarrow> (Inl e, self)
      | Inr tables \<Rightarrow>
          if last_one_only \<and> tables = [] then (Inl IndexError, self)
          else
            (let retained_data = (if last_one_only then last tables else PyList tables) in
             (Inr retained_data,
              (case attribute_name of
                 None \<Rightarrow> self
               | Some a \<Rightarrow> self\<lparr>data := (data self)(a \<mapsto> retained_data)\<rparr>)))))))"

subsection \<open>The readers of the tables of a Q-Chem output\<close>

text \<open>
  To tell which reads a construction performs, and in which order, a session holds,
  next to the object, a journal of the calls of \<^verbatim>\<open>read_pattern\<close> and
  \<^verbatim>\<open>read_table_pattern\<close> made on it, with their arguments (the \<^verbatim>\<open>postprocess\<close>
  callable left out; a \<open>table_call\<close> holds the arguments of a call of
  \<^verbatim>\<open>read_table_pattern\<close>). A call is entered in the journal when it is made,
  whether it returns or raises.
\<close>

datatype table_call = Table_call string string string "string option" bool

datatype call = Read_pattern "(string \<times> string) list" bool bool
  | Read_table_pattern table_call

type_synonym 'v session = "call list \<times> 'v qccalc"

definition do_read_pattern :: "files \<Rightarrow> (string \<times> string) list \<Rightarrow> bool \<Rightarrow> bool \<Rightarrow> 'v postprocess
    \<Rightarrow> 'v session \<Rightarrow> (error + unit) \<times> 'v session" where
  "do_read_pattern fs patterns reverse terminate_on_match pp w =
     (case read_pattern fs patterns reverse terminate_on_match pp (snd w) of
        (res, self') \<Rightarrow>
          (res, (fst w @ [Read_pattern patterns reverse terminate_on_match], self')))"

definition do_read_table_pattern :: "files \<Rightarrow> string \<Rightarrow> string \<Rightarrow> string \<Rightarrow> 'v postprocess
    \<Rightarrow> string option \<Rightarrow> bool \<Rightarrow> 'v session \<Rightarrow> (error + 'v pyval) \<times> 'v session" where
  "do_read_table_pattern fs header_pattern row_pattern footer_pattern pp attribute_name
       last_one_only w =
     (case read_table_pattern fs header_pattern row_pattern footer_pattern pp attribute_name
             last_one_only (snd w) of
        (res, self') \<Rightarrow>
          (res, (fst w @ [Read_table_pattern (Table_call header_pattern row_pattern
                   footer_pattern attribute_name last_one_only)], self')))"

text \<open>\<^verbatim>\<open>self.data[k]\<close>\<close>

definition data_item :: "'v session \<Rightarrow> string \<Rightarrow> (error + 'v pyval) \<times> 'v session" where
  "data_item w k = (case data (snd w) k of None \<Rightarrow> (Inl KeyError, w) | Some v \<Rightarrow> (Inr v, w))"

text \<open>The pattern strings of the four readers (local variables of the source).\<close>

definition GEN_SCFMAN_header_pattern :: string where
  "GEN_SCFMAN_header_pattern = raw ''/s*/-+/s+Cycle/s+Energy/s+Error/s+/-+/s+/-+/s+OpenMP/s+Integral/s+computing/s+Module/s+/-+/s+/-+/s+OpenMP/s+Integral/s+computing/s+Module/s+/-+''"

definition GEN_SCFMAN_table_pattern :: string where
  "GEN_SCFMAN_table_pattern = raw ''/s+/d+/s+([/d/-/.]+)/s+([/d/-/.]+)e([/d/-/.]+)(?:/s+Convergence criterion met)*(?:/s+Preconditoned Steepest Descent)*(?:/s+BFGS Step)*(?:/s+LineSearch Step)*''"

definition GEN_SCFMAN_footer_pattern :: string where
  "GEN_SCFMAN_footer_pattern = raw ''/-+/n/sSCF/stime:/s+CPU/s[/d/-/.]+s/s+wall/s+[/d/-/.]+s''"

definition SCF_header_pattern :: string where
  "SCF_header_pattern = raw ''/-+/s+Cycle/s+Energy/s+DIIS Error/s+/-+''"

definition SCF_table_pattern :: string where
  "SCF_table_pattern = raw ''/s+/d+/s+([/d/-/.]+)/s+([/d/-/.]+)E([/d/-/.]+)(?:/sConvergence criterion met)*''"

definition SCF_footer_pattern :: string where
  "SCF_footer_pattern = raw ''/-+/n/sSCF/stime:/s+CPU [/d/-/.]+ s/s+wall/s+[/d/-/.]+ s''"

definition restricted_mulliken_header_pattern :: string where
  "restricted_mulliken_header_pattern = raw ''/-+/s+Ground-State Mulliken Net Atomic Charges/s+Atom/s+Charge /(a.u./)/s+/-+''"

definition restricted_mulliken_table_pattern :: string where
  "restricted_mulliken_table_pattern = raw ''/s+/d+/s(/w+)/s+([/d/-/.]+)''"

definition restricted_mulliken_footer_pattern :: string where
  "restricted_mulliken_footer_pattern = raw ''/s/s/-+/s+Sum of atomic charges''"

definition unrestricted_mulliken_header_pattern :: string where
  "unrestricted_mulliken_header_pattern = raw ''/-+/s+Ground-State Mulliken Net Atomic Charges/s+Atom/s+Charge /(a.u./)/s+Spin/s/(a.u./)/s+/-+''"

definition unrestricted_mulliken_table_pattern :: string where
  "unrestricted_mulliken_table_pattern = raw ''/s+/d+/s(/w+)/s+([/d/-/.]+)/s+([/d/-/.]+)''"

definition unrestricted_mulliken_footer_pattern :: string where
  "unrestricted_mulliken_footer_pattern = raw ''/s/s/-+/s+Sum of atomic charges''"

definition read_GEN_SCFMAN :: "files \<Rightarrow> string session \<Rightarrow> (error + string pyval) \<times> string session" where
  "read_GEN_SCFMAN fs w =
     (let header_pattern = GEN_SCFMAN_header_pattern;
          table_pattern = GEN_SCFMAN_table_pattern;
          footer_pattern = GEN_SCFMAN_footer_pattern
      in case do_read_table_pattern fs header_pattern table_pattern footer_pattern py_str
                (Some ''GEN_SCFMAN'') False w of
           (Inl e, w') \<Rightarrow> (Inl e, w')
         | (Inr r, w') \<Rightarrow> data_item w' ''GEN_SCFMAN'')"

definition read_SCF :: "files \<Rightarrow> string session \<Rightarrow> (error + string pyval) \<times> string session" where
  "read_SCF fs w =
     (let header_pattern = SCF_header_pattern;
          table_pattern = SCF_table_pattern;
          footer_pattern = SCF_footer_pattern
      in case do_read_table_pattern fs header_pattern table_pattern footer_pattern py_str
                (Some ''SCF'') False w of
           (Inl e, w') \<Rightarrow> (Inl e, w')
         | (Inr r, w') \<Rightarrow> data_item w' ''SCF'')"

definition read_restricted_mulliken ::
    "files \<Rightarrow> string session \<Rightarrow> (error + string pyval) \<times> string session" where
  "read_restricted_mulliken fs w =
     (let header_pattern = restricted_mulliken_header_pattern;
          table_pattern = restricted_mulliken_table_pattern;
          footer_pattern = restricted_mulliken_footer_pattern
      in case do_read_table_pattern fs header_pattern table_pattern footer_pattern py_str
                (Some ''restricted_Mulliken'') False w of
           (Inl e, w') \<Rightarrow> (Inl e, w')
         | (Inr r, w') \<Rightarrow> data_item w' ''restricted_Mulliken'')"

definition read_unrestricted_mulliken ::
    "files \<Rightarrow> string session \<Rightarrow> (error + string pyval) \<times> string session" where
  "read_unrestricted_mulliken fs w =
     (let header_pattern = unrestricted_mulliken_header_pattern;
          table_pattern = unrestricted_mulliken_table_pattern;
          footer_pattern = unrestricted_mulliken_footer_pattern
      in case do_read_table_pattern fs header_pattern table_pattern footer_pattern py_str
                (Some ''unrestricted_Mulliken'') False w of
           (Inl e, w') \<Rightarrow> (Inl e, w')
         | (Inr r, w') \<Rightarrow> data_item w' ''unrestricted_Mulliken'')"

subsection \<open>The constructor\<close>

text \<open>Truth value of a Python value: an empty list, dictionary or string is false.\<close>

fun truthy :: "string pyval \<Rightarrow> bool" where
  "truthy (Leaf s) = (s \<noteq> [])"
| "truthy (PyList xs) = (xs \<noteq> [])"
| "truthy (PyDict kvs) = (kvs \<noteq> [])"

text \<open>\<^verbatim>\<open>self.data.get(k, [])\<close>\<close>

definition data_get :: "'v qccalc \<Rightarrow> string \<Rightarrow> 'v pyval" where
  "data_get self k = (case data self k of None \<Rightarrow> PyList [] | Some v \<Rightarrow> v)"

definition unrestricted_patterns :: "(string \<times> string) list" where
  "unrestricted_patterns = [(''unrestricted'', raw ''A/sunrestricted/sSCF/scalculation/swill/sbe'')]"

definition using_GEN_SCFMAN_patterns :: "(string \<times> string) list" where
  "using_GEN_SCFMAN_patterns =
     [(''using_GEN_SCFMAN'', raw ''/s+GEN_SCFMAN: A general SCF calculation manager'')]"

definition final_energy_patterns :: "(string \<times> string) list" where
  "final_energy_patterns = [(''final_energy'', raw ''Final/senergy/sis/s+([/d/-/.]+)'')]"

definition S2_patterns :: "(string \<times> string) list" where
  "S2_patterns = [(''S2'', raw ''<S/^2>/s=/s+([/d/-/.]+)'')]"

text \<open>The steps of \<^verbatim>\<open>__init__\<close> after the two probes, in the order of the source.\<close>

definition parse_SCF :: "files \<Rightarrow> string session \<Rightarrow> (error + string pyval) \<times> string session" where
  "parse_SCF fs w =
     (if truthy (data_get (snd w) ''using_GEN_SCFMAN'') then read_GEN_SCFMAN fs w
      else read_SCF fs w)"

definition parse_mulliken :: "files \<Rightarrow> string session \<Rightarrow> (error + string pyval) \<times> string session" where
  "parse_mulliken fs w =
     (if truthy (data_get (snd w) ''unrestricted'') then read_unrestricted_mulliken fs w
      else read_restricted_mulliken fs w)"

definition parse_S2 :: "files \<Rightarrow> string session \<Rightarrow> (error + unit) \<times> string session" where
  "parse_S2 fs w =
     (if truthy (data_get (snd w) ''unrestricted'')
      then do_read_pattern fs S2_patterns False False py_str w
      else (Inr (), w))"

text \<open>
  The body of \<^verbatim>\<open>__init__\<close>, from an empty journal and \<^verbatim>\<open>self.data = {}\<close>: what it
  returns or raises, and the session at that moment.
\<close>

definition init_run :: "files \<Rightarrow> string \<Rightarrow> (error + unit) \<times> string session" where
  "init_run fs fname =
     (case do_read_pattern fs unrestricted_patterns False True py_str
             ([], \<lparr>filename = fname, data = Map.empty\<rparr>) of
        (Inl e, w) \<Rightarrow> (Inl e, w)
      | (Inr u, w) \<Rightarrow>
     (case do_read_pattern fs using_GEN_SCFMAN_patterns False True py_str w of
        (Inl e, w) \<Rightarrow> (Inl e, w)
      | (Inr u, w) \<Rightarrow>
     (case parse_SCF fs w of
        (Inl e, w) \<Rightarrow> (Inl e, w)
      | (Inr r, w) \<Rightarrow>
     (case parse_mulliken fs w of
        (Inl e, w) \<Rightarrow> (Inl e, w)
      | (Inr r, w) \<Rightarrow>
     (case do_read_pattern fs final_energy_patterns False False py_str w of
        (Inl e, w) \<Rightarrow> (Inl e, w)
      | (Inr u, w) \<Rightarrow> parse_S2 fs w)))))"

text \<open>\<^verbatim>\<open>QCCalc(filename)\<close>: the object built, or the exception that left none.\<close>

definition init :: "files \<Rightarrow> string \<Rightarrow> error + string qccalc" where
  "init fs fname =
     (case init_run fs fname of
        (Inl e, w) \<Rightarrow> Inl e
      | (Inr u, w) \<Rightarrow> Inr (snd w))"

text \<open>The calls made by a construction, in order, whether it returns or raises.\<close>

definition journal :: "files \<Rightarrow> string \<Rightarrow> call list" where
  "journal fs fname = fst (snd (init_run fs fname))"

section \<open>Notions used to state the properties\<close>

text \<open>
  The compiled patterns of a call of \<^verbatim>\<open>read_table_pattern\<close> and the matches of the
  compound pattern in a text, as functions of the three pattern strings.
\<close>

definition valid_patterns :: "string \<Rightarrow> string \<Rightarrow> string \<Rightarrow> bool" where
  "valid_patterns h r f \<longleftrightarrow>
     \<not> isl (re_compile (table_pattern_text h r f) MULTILINE_DOTALL) \<and>
     \<not> isl (re_compile r no_flags)"

definition table_regex :: "string \<Rightarrow> string \<Rightarrow> string \<Rightarrow> pattern" where
  "table_regex h r f = projr (re_compile (table_pattern_text h r f) MULTILINE_DOTALL)"

definition row_regex :: "string \<Rightarrow> pattern" where
  "row_regex r = projr (re_compile r no_flags)"

definition table_matches :: "string \<Rightarrow> string \<Rightarrow> string \<Rightarrow> string \<Rightarrow> match list" where
  "table_matches h r f text = finditer (table_regex h r f) text"

text \<open>What a call stores: nothing without an attribute name.\<close>

definition stored :: "string option \<Rightarrow> 'v pyval \<Rightarrow> 'v qccalc \<Rightarrow> 'v qccalc" where
  "stored attribute_name v self =
     (case attribute_name of None \<Rightarrow> self | Some a \<Rightarrow> self\<lparr>data := (data self)(a \<mapsto> v)\<rparr>)"

text \<open>The captured substrings of a row match that \<^verbatim>\<open>postprocess\<close> is applied to.\<close>

definition captured :: "match \<Rightarrow> string option list" where
  "captured ml = (if length (groupdict ml) > 0 then map snd (groupdict ml) else groups ml)"

text \<open>The shapes of a row record, of a table and of a list of tables.\<close>

fun is_leaf :: "'v pyval \<Rightarrow> bool" where
  "is_leaf (Leaf v) = True"
| "is_leaf (PyList xs) = False"
| "is_leaf (PyDict kvs) = False"

definition named_row :: "string list \<Rightarrow> 'v pyval \<Rightarrow> bool" where
  "named_row names row =
     (case row of
        PyDict kvs \<Rightarrow> map fst kvs = names \<and> list_all is_leaf (map snd kvs)
      | _ \<Rightarrow> False)"

definition positional_row :: "nat \<Rightarrow> 'v pyval \<Rightarrow> bool" where
  "positional_row n row =
     (case row of
        PyList vs \<Rightarrow> length vs = n \<and> list_all is_leaf vs
      | _ \<Rightarrow> False)"

definition list_of :: "('v pyval \<Rightarrow> bool) \<Rightarrow> 'v pyval \<Rightarrow> bool" where
  "list_of P v = (case v of PyList xs \<Rightarrow> list_all P xs | _ \<Rightarrow> False)"

text \<open>The names of the named groups of the row pattern, and the number of its groups.\<close>

definition row_names :: "string \<Rightarrow> string list" where
  "row_names r = map fst (group_names (p_re (row_regex r)) 0)"

definition row_ngroups :: "string \<Rightarrow> nat" where
  "row_ngroups r = ngroups (p_re (row_regex r))"

text \<open>
  A piece of the text inside the span of a match: \<open>body\<close> stands in \<open>text\<close> at some
  offset between the start and the end of \<open>mt\<close>.
\<close>

definition inside :: "string \<Rightarrow> match \<Rightarrow> string \<Rightarrow> bool" where
  "inside body mt text \<longleftrightarrow>
     (\<exists>off. m_start mt \<le> off \<and> off + length body \<le> m_end mt \<and>
        body = take (length body) (drop off text))"

definition row_record :: "string \<Rightarrow> 'v pyval \<Rightarrow> bool" where
  "row_record r row =
     (if row_names r \<noteq> [] then named_row (row_names r) row
      else positional_row (row_ngroups r) row)"

text \<open>
  The compiled form of a scalar pattern, the lines that \<^verbatim>\<open>regrep\<close> reads, and what one
  line adds to the matches of a pattern: nothing, or the list of the postprocessed groups
  of its match.
\<close>

definition compiled :: "string \<Rightarrow> pattern" where
  "compiled v = projr (re_compile v no_flags)"

definition scanned_lines :: "bool \<Rightarrow> string \<Rightarrow> string list" where
  "scanned_lines reverse text = (if reverse then reverse_readfile text else file_lines text)"

definition line_entries :: "pattern \<Rightarrow> 'v postprocess \<Rightarrow> string \<Rightarrow> 'v list list" where
  "line_entries p pp l =
     (case search p l of
        None \<Rightarrow> []
      | Some m \<Rightarrow> (case map_err pp (groups m) of Inl e \<Rightarrow> [] | Inr gs \<Rightarrow> [gs]))"

definition matches_line :: "string \<Rightarrow> string \<Rightarrow> bool" where
  "matches_line v l \<longleftrightarrow> search (compiled v) l \<noteq> None"

text \<open>A field without a match: no scanned line matches a pattern given under the key.\<close>

definition no_match :: "(string \<times> string) list \<Rightarrow> string \<Rightarrow> string list \<Rightarrow> bool" where
  "no_match patterns k ls \<longleftrightarrow>
     list_all (\<lambda>l. list_all (\<lambda>(k', v). k' = k \<longrightarrow> \<not> matches_line v l) patterns) ls"

text \<open>\<^verbatim>\<open>postprocess\<close> raises on no match of the patterns in the lines.\<close>

definition postprocess_ok :: "(string \<times> string) list \<Rightarrow> 'v postprocess \<Rightarrow> string list \<Rightarrow> bool" where
  "postprocess_ok patterns pp ls \<longleftrightarrow>
     list_all (\<lambda>l. list_all (\<lambda>(k, v).
        case search (compiled v) l of
          None \<Rightarrow> True
        | Some m \<Rightarrow> \<not> isl (map_err pp (groups m))) patterns) ls"

text \<open>
  The first error of a comprehension \<^verbatim>\<open>[f(x) for x in xs]\<close>: what \<open>f\<close> raises on the first
  element on which it raises, if there is one.
\<close>

primrec first_error :: "('a \<Rightarrow> error + 'b) \<Rightarrow> 'a list \<Rightarrow> error option" where
  "first_error f [] = None"
| "first_error f (x # xs) = (case f x of Inl e \<Rightarrow> Some e | Inr y \<Rightarrow> first_error f xs)"

text \<open>
  The captured substrings that \<^verbatim>\<open>postprocess\<close> is applied to, in the order of the
  calls: those of a line, of the lines of the body of a match, and of all the matches of
  the compound pattern.
\<close>

definition line_captured :: "string \<Rightarrow> string \<Rightarrow> string option list" where
  "line_captured r line =
     (case search (row_regex r) line of None \<Rightarrow> [] | Some ml \<Rightarrow> captured ml)"

definition table_captured :: "string \<Rightarrow> match \<Rightarrow> string option list" where
  "table_captured r mt =
     (case group mt ''table_body'' of
        Inr (Some body) \<Rightarrow> concat (map (line_captured r) (split_nl body))
      | _ \<Rightarrow> [])"

definition all_captured :: "string \<Rightarrow> string \<Rightarrow> string \<Rightarrow> string \<Rightarrow> string option list" where
  "all_captured h r f text = concat (map (table_captured r) (table_matches h r f text))"

text \<open>
  No lookup can fail: every match of the compound pattern has its body, and the row
  pattern matches every line of every body.
\<close>

definition well_formed_tables :: "string \<Rightarrow> string \<Rightarrow> string \<Rightarrow> string \<Rightarrow> bool" where
  "well_formed_tables h r f text \<longleftrightarrow>
     list_all (\<lambda>mt. case group mt ''table_body'' of
         Inr (Some body) \<Rightarrow> list_all (\<lambda>line. search (row_regex r) line \<noteq> None) (split_nl body)
       | _ \<Rightarrow> False) (table_matches h r f text)"

text \<open>\<^verbatim>\<open>"\n".join(lines)\<close>: the lines of a text put together again.\<close>

fun join_nl :: "string list \<Rightarrow> string" where
  "join_nl [] = []"
| "join_nl [l] = l"
| "join_nl (l # l' # ls) = l @ newline # join_nl (l' # ls)"

text \<open>
  A probe of \<^verbatim>\<open>__init__\<close>: some line of the text matches a pattern of the set. The
  object at the start of \<^verbatim>\<open>__init__\<close>.
\<close>

definition probe :: "(string \<times> string) list \<Rightarrow> string \<Rightarrow> bool" where
  "probe patterns text \<longleftrightarrow>
     list_ex (\<lambda>l. list_ex (\<lambda>(k, v). matches_line v l) patterns) (file_lines text)"

definition fresh :: "string \<Rightarrow> string qccalc" where
  "fresh fname = \<lparr>filename = fname, data = Map.empty\<rparr>"

text \<open>The arguments of the four table extractions.\<close>

definition GEN_SCFMAN_call :: table_call where
  "GEN_SCFMAN_call = Table_call GEN_SCFMAN_header_pattern GEN_SCFMAN_table_pattern
     GEN_SCFMAN_footer_pattern (Some ''GEN_SCFMAN'') False"

definition SCF_call :: table_call where
  "SCF_call = Table_call SCF_header_pattern SCF_table_pattern SCF_footer_pattern
     (Some ''SCF'') False"

definition restricted_mulliken_call :: table_call where
  "restricted_mulliken_call = Table_call restricted_mulliken_header_pattern
     restricted_mulliken_table_pattern restricted_mulliken_footer_pattern
     (Some ''restricted_Mulliken'') False"

definition unrestricted_mulliken_call :: table_call where
  "unrestricted_mulliken_call = Table_call unrestricted_mulliken_header_pattern
     unrestricted_mulliken_table_pattern unrestricted_mulliken_footer_pattern
     (Some ''unrestricted_Mulliken'') False"

text \<open>
  What a call of \<^verbatim>\<open>read_table_pattern\<close> with the default \<^verbatim>\<open>postprocess\<close> returns or
  raises on the file, and the value of a result that is not an error.
\<close>

fun table_result :: "files \<Rightarrow> string \<Rightarrow> table_call \<Rightarrow> error + string pyval" where
  "table_result fs fname (Table_call h r f a l) =
     fst (read_table_pattern fs h r f py_str a l (fresh fname))"

definition value_of :: "error + 'a \<Rightarrow> 'a option" where
  "value_of res = (case res of Inl e \<Rightarrow> None | Inr v \<Rightarrow> Some v)"

text \<open>
  The table extractions that the probes select for a text, and the calls of a
  construction on that text that nothing interrupts.
\<close>

definition SCF_choice :: "string \<Rightarrow> table_call" where
  "SCF_choice text = (if probe using_GEN_SCFMAN_patterns text then GEN_SCFMAN_call else SCF_call)"

definition mulliken_choice :: "string \<Rightarrow> table_call" where
  "mulliken_choice text =
     (if probe unrestricted_patterns text then unrestricted_mulliken_call
      else restricted_mulliken_call)"

definition expected_calls :: "string \<Rightarrow> call list" where
  "expected_calls text =
     [Read_pattern unrestricted_patterns False True,
      Read_pattern using_GEN_SCFMAN_patterns False True,
      Read_table_pattern (SCF_choice text),
      Read_table_pattern (mulliken_choice text),
      Read_pattern final_energy_patterns False False] @
     (if probe unrestricted_patterns text then [Read_pattern S2_patterns False False] else [])"

section \<open>Example inputs\<close>

text \<open>A small table format: a line \<^verbatim>\<open>H\<close>, rows of a number and a word, a line \<^verbatim>\<open>F\<close>.\<close>

definition ex_header :: string where
  "ex_header = ''H''"

definition ex_row :: string where
  "ex_row = raw ''(/d+)/s(/w+)''"

definition ex_footer :: string where
  "ex_footer = ''F''"

definition ex_self :: "string qccalc" where
  "ex_self = \<lparr>filename = ''qc.out'', data = Map.empty\<rparr>"

definition ex_no_table :: string where
  \<open>ex_no_table = ''H\<newline> 1 a\<newline>no footer\<newline>''\<close>

definition ex_three_tables :: string where
  \<open>ex_three_tables =
     ''junk\<newline>H\<newline> 1 a\<newline> 2 b\<newline>F\<newline>mid\<newline>H\<newline> 3 c\<newline>F\<newline>H\<newline> 4 d\<newline> 5 e\<newline> 6 f\<newline>F\<newline>''\<close>

definition ex_blank_line :: string where
  \<open>ex_blank_line = ''H\<newline> 1 a\<newline>\<newline> 2 b\<newline>F\<newline>''\<close>

text \<open>A \<^verbatim>\<open>postprocess\<close> that raises on everything but digits, as \<^verbatim>\<open>int\<close> does on a word.\<close>

definition ex_int :: "string postprocess" where
  "ex_int g =
     (case g of
        None \<Rightarrow> Inl (Raised ''TypeError'')
      | Some s \<Rightarrow> if s \<noteq> [] \<and> list_all is_digit s then Inr s else Inl (Raised ''ValueError''))"

definition ex_named_row :: string where
  "ex_named_row = raw ''(?P<n>/d+)/s(?P<w>/w+)''"

definition ex_energy_only :: string where
  \<open>ex_energy_only = ''start\<newline> Final energy is -76.12345\<newline>end\<newline>''\<close>

definition ex_two_fields :: "(string \<times> string) list" where
  "ex_two_fields =
     [(''final_energy'', raw ''Final/senergy/sis/s+([/d/-/.]+)''),
      (''S2'', raw ''<S/^2>/s=/s+([/d/-/.]+)'')]"

definition ex_energy_line :: string where
  "ex_energy_line = ''Final energy is -76.12345''"

definition ex_version_patterns :: "(string \<times> string) list" where
  "ex_version_patterns = [(''version'', raw ''Q-Chem (/d+)/.(/d+)'')]"

definition ex_version_line :: string where
  "ex_version_line = ''Welcome to Q-Chem 5.1''"

text \<open>
  The three blocks of \<open>ex_three_tables\<close>, and a row pattern that also matches a header
  line and a footer line.
\<close>

definition ex_block1 :: string where
  \<open>ex_block1 = ''H\<newline> 1 a\<newline> 2 b\<newline>F\<newline>''\<close>

definition ex_block2 :: string where
  \<open>ex_block2 = ''H\<newline> 3 c\<newline>F\<newline>''\<close>

definition ex_block3 :: string where
  \<open>ex_block3 = ''H\<newline> 4 d\<newline> 5 e\<newline> 6 f\<newline>F\<newline>''\<close>

definition ex_word_row :: string where
  "ex_word_row = raw ''(/w+)''"

text \<open>
  A shortened output of an unrestricted calculation run by \<^verbatim>\<open>GEN_SCFMAN\<close>, with its table
  of two SCF cycles and its Mulliken charges of two atoms.
\<close>

definition ex_output :: string where
  \<open>ex_output =
     ''A unrestricted SCF calculation will be\<newline>'' @
     '' GEN_SCFMAN: A general SCF calculation manager\<newline>'' @
     ''- Cycle Energy Error - - OpenMP Integral computing Module - - OpenMP Integral computing Module -\<newline>'' @
     ''  1 -76.1 1.0e-02\<newline>'' @
     '' 2 -76.2 1.0e-03 Convergence criterion met\<newline>'' @
     '' -\<newline>'' @
     '' SCF time: CPU 1.0s wall 1.0s\<newline>'' @
     ''Final energy is -76.2\<newline>'' @
     ''- Ground-State Mulliken Net Atomic Charges Atom Charge (a.u.) Spin (a.u.) -\<newline>'' @
     ''  1 O -0.8 1.0\<newline>'' @
     '' 2 H 0.4 0.0\<newline>'' @
     ''  - Sum of atomic charges\<newline>'' @
     ''<S^2> = 0.75\<newline>''\<close>

section \<open>Properties\<close>

subsection \<open>Auxiliary facts\<close>

lemma map_err_Inr_iff: "map_err f xs = Inr ys \<longleftrightarrow> list_all2 (\<lambda>x y. f x = Inr y) xs ys"
proof (induction xs arbitrary: ys)
  case Nil
  show ?case by auto
next
  case (Cons x xs)
  show ?case
  proof (cases "map_err f xs")
    case (Inl e)
    then have "\<not> list_all2 (\<lambda>x y. f x = Inr y) xs zs" for zs
      using Cons.IH[of zs] by simp
    with Inl show ?thesis by (cases ys) (auto split: sum.splits)
  next
    case (Inr zs)
    then have "list_all2 (\<lambda>x y. f x = Inr y) xs ws \<longleftrightarrow> ws = zs" for ws
      using Cons.IH[of ws] by auto
    with Inr show ?thesis by (cases ys) (auto split: sum.splits)
  qed
qed

lemma map_err_Inl_ex: "map_err f xs = Inl e \<Longrightarrow> \<exists>x\<in>set xs. f x = Inl e"
  by (induction xs) (auto split: sum.splits)

lemma map_err_fails: "x \<in> set xs \<Longrightarrow> f x = Inl e \<Longrightarrow> \<exists>e'. map_err f xs = Inl e'"
  by (induction xs) (auto split: sum.splits)

lemma read_table_pattern_valid:
  assumes "fs (filename self) = Some text" and "valid_patterns h r f"
  shows "read_table_pattern fs h r f pp attribute_name last_one_only self =
     (case map_err (process_table (row_regex r) pp) (table_matches h r f text) of
        Inl e \<Rightarrow> (Inl e, self)
      | Inr tables \<Rightarrow>
          if last_one_only \<and> tables = [] then (Inl IndexError, self)
          else (Inr (if last_one_only then last tables else PyList tables),
                stored attribute_name (if last_one_only then last tables else PyList tables) self))"
proof -
  from assms(2) obtain tp rp where
    c: "re_compile (table_pattern_text h r f) MULTILINE_DOTALL = Inr tp" "re_compile r no_flags = Inr rp"
    unfolding valid_patterns_def
    by (cases "re_compile (table_pattern_text h r f) MULTILINE_DOTALL"; cases "re_compile r no_flags")
      auto
  then have "table_regex h r f = tp" "row_regex r = rp"
    by (simp_all add: table_regex_def row_regex_def)
  with assms(1) c show ?thesis
    by (simp add: read_table_pattern_def table_matches_def stored_def Let_def
        split: sum.splits option.splits)
qed

lemma read_table_pattern_Inr_valid:
  assumes "fst (read_table_pattern fs h r f pp attribute_name last_one_only self) = Inr v"
  shows "\<exists>text. fs (filename self) = Some text" and "valid_patterns h r f"
  using assms
  by (auto simp: read_table_pattern_def valid_patterns_def split: option.splits sum.splits)

lemma process_line_fails_on_capture:
  assumes "search rp line = Some ml" and "g \<in> set (captured ml)" and "pp g = Inl e"
  shows "\<exists>e'. process_line rp pp line = Inl e'"
proof (cases "length (groupdict ml) > 0")
  case True
  let ?f = "\<lambda>(k, v). case pp v of Inl e \<Rightarrow> Inl e | Inr w \<Rightarrow> Inr (k, Leaf w)"
  from True assms(2) obtain k where k: "(k, g) \<in> set (groupdict ml)"
    by (auto simp: captured_def)
  have "?f (k, g) = Inl e" using assms(3) by simp
  from map_err_fails[where f = ?f, OF k this] obtain e' where
    "map_err ?f (groupdict ml) = Inl e'" ..
  with True assms(1) show ?thesis by (simp add: process_line_def)
next
  case False
  with assms(2) have "g \<in> set (groups ml)" by (simp add: captured_def)
  from map_err_fails[where f = pp, OF this assms(3)] obtain e' where
    "map_err pp (groups ml) = Inl e'" ..
  with False assms(1) show ?thesis by (simp add: process_line_def)
qed

lemma process_table_fails_on_line:
  assumes "group mt ''table_body'' = Inr (Some body)" and "line \<in> set (split_nl body)"
    and "process_line rp pp line = Inl e"
  shows "\<exists>e'. process_table rp pp mt = Inl e'"
proof -
  from map_err_fails[where f = "process_line rp pp", OF assms(2,3)] obtain e' where
    "map_err (process_line rp pp) (split_nl body) = Inl e'" ..
  with assms(1) show ?thesis by (simp add: process_table_def)
qed

lemma read_table_pattern_fails_on_table:
  assumes "fs (filename self) = Some text" and "valid_patterns h r f"
    and "mt \<in> set (table_matches h r f text)"
    and "process_table (row_regex r) pp mt = Inl e"
  shows "\<exists>e'. read_table_pattern fs h r f pp attribute_name last_one_only self = (Inl e', self)"
proof -
  from map_err_fails[where f = "process_table (row_regex r) pp", OF assms(3,4)] obtain e' where
    "map_err (process_table (row_regex r) pp) (table_matches h r f text) = Inl e'" ..
  then show ?thesis
    using read_table_pattern_valid[where fs = fs and self = self, OF assms(1,2)] by simp
qed

lemma process_line_error:
  assumes "process_line rp pp line = Inl e"
  shows "e = AttributeError \<or> (\<exists>g. pp g = Inl e)"
proof (cases "search rp line")
  case None
  with assms show ?thesis by (simp add: process_line_def)
next
  case (Some ml)
  let ?f = "\<lambda>(k, v). case pp v of Inl e \<Rightarrow> Inl e | Inr w \<Rightarrow> Inr (k, Leaf w)"
  show ?thesis
  proof (cases "length (groupdict ml) > 0")
    case True
    with Some assms have "map_err ?f (groupdict ml) = Inl e"
      by (simp add: process_line_def split: sum.splits)
    from map_err_Inl_ex[OF this] show ?thesis by (auto split: sum.splits)
  next
    case False
    with Some assms have "map_err pp (groups ml) = Inl e"
      by (simp add: process_line_def split: sum.splits)
    from map_err_Inl_ex[OF this] show ?thesis by blast
  qed
qed

lemma process_table_error:
  assumes "process_table rp pp mt = Inl e"
  shows "e = IndexError \<or> e = AttributeError \<or> (\<exists>g. pp g = Inl e)"
proof (cases "group mt ''table_body''")
  case (Inl e')
  then have "e' = IndexError" by (auto simp: group_def split: option.splits)
  with Inl assms show ?thesis by (simp add: process_table_def)
next
  case (Inr b)
  show ?thesis
  proof (cases b)
    case None
    with Inr assms show ?thesis by (simp add: process_table_def)
  next
    case (Some body)
    with Inr assms have "map_err (process_line rp pp) (split_nl body) = Inl e"
      by (simp add: process_table_def split: sum.splits)
    from map_err_Inl_ex[OF this] obtain line where "process_line rp pp line = Inl e" by auto
    from process_line_error[OF this] show ?thesis by blast
  qed
qed

lemma read_table_pattern_error:
  assumes "fs (filename self) = Some text" and "valid_patterns h r f"
    and "read_table_pattern fs h r f pp attribute_name last_one_only self = (Inl e, self')"
  shows "e = IndexError \<or> e = AttributeError \<or> (\<exists>g. pp g = Inl e)"
proof (cases "map_err (process_table (row_regex r) pp) (table_matches h r f text)")
  case (Inl e')
  with assms(3) have "e' = e"
    using read_table_pattern_valid[where fs = fs and self = self, OF assms(1,2)] by simp
  with Inl map_err_Inl_ex obtain mt where "process_table (row_regex r) pp mt = Inl e" by fast
  from process_table_error[OF this] show ?thesis .
next
  case (Inr tables)
  with assms(3) show ?thesis
    using read_table_pattern_valid[where fs = fs and self = self, OF assms(1,2)]
    by (simp split: if_splits)
qed

lemma search_from_caps_empty:
  "search_from fl r adv p pv cs = Some (b, e) \<Longrightarrow> caps b = []"
  by (induction cs arbitrary: adv p pv) (auto split: option.splits)

lemma finditer_from_spans:
  assumes "cs = drop q text" and "q \<le> length text"
  shows "\<forall>mt \<in> set (finditer_from p adv q pv cs).
      q \<le> m_start mt \<and> m_start mt \<le> m_end mt \<and> m_end mt \<le> length text \<and>
      (\<forall>ic \<in> set (m_caps mt). inside (snd ic) mt text)"
  using assms
proof (induction p adv q pv cs rule: finditer_from.induct)
  case (1 p adv q pv cs)
  show ?case
  proof (cases "search_from (p_flags p) (p_re p) adv q pv cs")
    case None
    then show ?thesis by (subst finditer_from.simps) simp
  next
    case (Some be)
    obtain b e where be: "be = (b, e)" by (cases be)
    with Some have s: "search_from (p_flags p) (p_re p) adv q pv cs = Some (b, e)" by simp
    from search_from_forward[OF s] have fb: "forward (MState q pv cs []) b" and fe: "forward b e"
      by auto
    from forwardD[OF fb] have lb: "length (rest b) \<le> length cs"
      and pb: "pos b = q + (length cs - length (rest b))"
      and rb: "rest b = drop (length cs - length (rest b)) cs" by simp_all
    from forwardD[OF fe] have le: "length (rest e) \<le> length (rest b)"
      and pe: "pos e = pos b + (length (rest b) - length (rest e))"
      and re: "rest e = drop (length (rest b) - length (rest e)) (rest b)" by simp_all
    have lcs: "length cs = length text - q" using "1.prems" by simp
    have rb': "rest b = drop (pos b) text"
      using rb pb "1.prems" by (simp add: add.commute)
    have re': "rest e = drop (pos e) text"
      using re pe rb' by (simp add: add.commute)
    have pel: "pos e \<le> length text" using pe pb lb le lcs "1.prems" by simp
    have qb: "q \<le> pos b" using pb by simp
    have bpe: "pos b \<le> pos e" using pe by simp
    have capsb: "caps b = []" using search_from_caps_empty[OF s] .
    have hd_caps: "inside (snd ic) (mk_match p (b, e)) text" if "ic \<in> set (caps e)" for ic
    proof -
      from fe that capsb have "piece_of (snd ic) (consumed b e) (rest b)"
        by (auto simp: forward_def)
      then obtain k where k: "k + length (snd ic) \<le> consumed b e"
        "snd ic = take (length (snd ic)) (drop k (rest b))"
        unfolding piece_of_def by blast
      from k(2) rb' have "snd ic = take (length (snd ic)) (drop (pos b + k) text)"
        by (simp add: add.commute)
      moreover from k(1) pe have "pos b + k + length (snd ic) \<le> pos e"
        by (simp add: consumed_def)
      ultimately show ?thesis
        unfolding inside_def mk_match_def by (intro exI[of _ "pos b + k"]) simp
    qed
    have ih: "\<forall>mt \<in> set (finditer_from p (pos e = pos b) (pos e) (prev e) (rest e)).
      pos e \<le> m_start mt \<and> m_start mt \<le> m_end mt \<and> m_end mt \<le> length text \<and>
      (\<forall>ic \<in> set (m_caps mt). inside (snd ic) mt text)"
      using "1.IH"[OF s refl re' pel] .
    have eq: "finditer_from p adv q pv cs =
        mk_match p (b, e) # finditer_from p (pos e = pos b) (pos e) (prev e) (rest e)"
      using s by (subst finditer_from.simps) simp
    show ?thesis
      unfolding eq using ih qb bpe pel hd_caps
      by (auto simp: mk_match_def)
  qed
qed

lemma finditer_from_sorted:
  assumes "cs = drop q text" and "q \<le> length text"
  shows "sorted_wrt (\<lambda>a b. m_end a \<le> m_start b) (finditer_from p adv q pv cs)"
  using assms
proof (induction p adv q pv cs rule: finditer_from.induct)
  case (1 p adv q pv cs)
  show ?case
  proof (cases "search_from (p_flags p) (p_re p) adv q pv cs")
    case None
    then show ?thesis by (subst finditer_from.simps) simp
  next
    case (Some be)
    obtain b e where be: "be = (b, e)" by (cases be)
    with Some have s: "search_from (p_flags p) (p_re p) adv q pv cs = Some (b, e)" by simp
    from search_from_forward[OF s] have fb: "forward (MState q pv cs []) b" and fe: "forward b e"
      by auto
    from forwardD[OF fb] have lb: "length (rest b) \<le> length cs"
      and pb: "pos b = q + (length cs - length (rest b))"
      and rb: "rest b = drop (length cs - length (rest b)) cs" by simp_all
    from forwardD[OF fe] have le: "length (rest e) \<le> length (rest b)"
      and pe: "pos e = pos b + (length (rest b) - length (rest e))"
      and re: "rest e = drop (length (rest b) - length (rest e)) (rest b)" by simp_all
    have lcs: "length cs = length text - q" using "1.prems" by simp
    have rb': "rest b = drop (pos b) text"
      using rb pb "1.prems" by (simp add: add.commute)
    have re': "rest e = drop (pos e) text"
      using re pe rb' by (simp add: add.commute)
    have pel: "pos e \<le> length text" using pe pb lb le lcs "1.prems" by simp
    have later: "\<forall>mt \<in> set (finditer_from p (pos e = pos b) (pos e) (prev e) (rest e)).
        pos e \<le> m_start mt"
      using finditer_from_spans[OF re' pel] by blast
    have eq: "finditer_from p adv q pv cs =
        mk_match p (b, e) # finditer_from p (pos e = pos b) (pos e) (prev e) (rest e)"
      using s by (subst finditer_from.simps) simp
    show ?thesis
      unfolding eq using "1.IH"[OF s refl re' pel] later
      by (auto simp: mk_match_def)
  qed
qed

lemma finditer_spans:
  "\<forall>mt \<in> set (finditer p text).
      m_start mt \<le> m_end mt \<and> m_end mt \<le> length text \<and>
      (\<forall>ic \<in> set (m_caps mt). inside (snd ic) mt text)"
  using finditer_from_spans[of "text" 0 "text" p False None] by (simp add: finditer_def)

lemma finditer_sorted: "sorted_wrt (\<lambda>a b. m_end a \<le> m_start b) (finditer p text)"
  using finditer_from_sorted[of "text" 0 "text" p False None] by (simp add: finditer_def)

lemma group_inside:
  assumes "mt \<in> set (finditer p text)" and "group mt name = Inr (Some body)"
  shows "inside body mt text"
proof -
  from assms(2) obtain i where "map_of (m_caps mt) i = Some body"
    by (auto simp: group_def split: option.splits)
  then have "(i, body) \<in> set (m_caps mt)" by (rule map_of_SomeD)
  with finditer_spans assms(1) show ?thesis by fastforce
qed

lemma search_m_re: "search rp line = Some ml \<Longrightarrow> m_re ml = p_re rp"
  by (auto simp: search_def mk_match_def)

lemma map_err_named:
  assumes "map_err (\<lambda>(k, v). case pp v of Inl e \<Rightarrow> Inl e | Inr w \<Rightarrow> Inr (k, Leaf w)) d = Inr kvs"
  shows "map fst kvs = map fst d \<and> list_all is_leaf (map snd kvs)"
  using assms
proof (induction d arbitrary: kvs)
  case Nil
  then show ?case by simp
next
  case (Cons x d)
  obtain k g where x: "x = (k, g)" by (cases x)
  from Cons.prems x obtain w kvs' where w: "pp g = Inr w"
    and r: "map_err (\<lambda>(k, v). case pp v of Inl e \<Rightarrow> Inl e | Inr w \<Rightarrow> Inr (k, Leaf w)) d = Inr kvs'"
    and kv: "kvs = (k, Leaf w) # kvs'"
    by (auto split: sum.splits)
  from Cons.IH[OF r] kv x show ?case by simp
qed

lemma list_all2_right_ex: "list_all2 P xs ys \<Longrightarrow> \<forall>y\<in>set ys. \<exists>x. P x y"
  by (induction rule: list_all2_induct) auto

lemma map_err_length: "map_err f xs = Inr ys \<Longrightarrow> length ys = length xs"
  by (simp add: map_err_Inr_iff list_all2_lengthD)

lemma process_line_shape:
  assumes "process_line rp pp line = Inr row"
  shows "if map fst (group_names (p_re rp) 0) \<noteq> []
    then named_row (map fst (group_names (p_re rp) 0)) row
    else positional_row (ngroups (p_re rp)) row"
proof -
  from assms obtain ml where ml: "search rp line = Some ml"
    by (cases "search rp line") (auto simp: process_line_def)
  from search_m_re[OF ml] have re: "m_re ml = p_re rp" .
  have names: "map fst (groupdict ml) = map fst (group_names (p_re rp) 0)"
    by (simp add: groupdict_def re case_prod_unfold comp_def)
  show ?thesis
  proof (cases "length (groupdict ml) > 0")
    case True
    with assms ml obtain kvs where
      m: "map_err (\<lambda>(k, v). case pp v of Inl e \<Rightarrow> Inl e | Inr w \<Rightarrow> Inr (k, Leaf w))
        (groupdict ml) = Inr kvs" and row: "row = PyDict kvs"
      by (auto simp: process_line_def split: sum.splits)
    from True names have "map fst (group_names (p_re rp) 0) \<noteq> []" by auto
    with map_err_named[OF m] names row show ?thesis by (simp add: named_row_def)
  next
    case False
    with assms ml obtain vs where m: "map_err pp (groups ml) = Inr vs"
      and row: "row = PyList (map Leaf vs)"
      by (auto simp: process_line_def split: sum.splits)
    from False names have e: "map fst (group_names (p_re rp) 0) = []" by auto
    from map_err_length[OF m] have "length vs = ngroups (p_re rp)"
      by (simp add: groups_def re)
    with e row show ?thesis by (simp add: positional_row_def list_all_iff)
  qed
qed

lemma process_table_shape:
  assumes "process_table (row_regex r) pp mt = Inr t"
  shows "list_of (row_record r) t"
proof -
  from assms obtain body rows where
    m: "map_err (process_line (row_regex r) pp) (split_nl body) = Inr rows"
    and t: "t = PyList rows"
    by (auto simp: process_table_def split: sum.splits option.splits)
  from m have "list_all2 (\<lambda>line row. process_line (row_regex r) pp line = Inr row)
      (split_nl body) rows" by (simp add: map_err_Inr_iff)
  then have "\<forall>row \<in> set rows. \<exists>line. process_line (row_regex r) pp line = Inr row"
    by (rule list_all2_right_ex)
  then have "\<forall>row \<in> set rows. row_record r row"
    using process_line_shape[of "row_regex r" pp]
    by (fastforce simp: row_record_def row_names_def row_ngroups_def)
  with t show ?thesis by (simp add: list_of_def list_all_iff)
qed

lemma read_table_pattern_shape:
  assumes "fst (read_table_pattern fs h r f pp attribute_name last_one_only self) = Inr v"
  shows "if last_one_only then list_of (row_record r) v
    else list_of (list_of (row_record r)) v"
proof -
  from read_table_pattern_Inr_valid[OF assms] obtain content where
    tx: "fs (filename self) = Some content" and v: "valid_patterns h r f" by blast
  note eq = read_table_pattern_valid[where fs = fs and self = self, OF tx v]
  from assms obtain tables where
    t: "map_err (process_table (row_regex r) pp) (table_matches h r f content) = Inr tables"
    and vt: "v = (if last_one_only then last tables else PyList tables)"
    and ne: "last_one_only \<longrightarrow> tables \<noteq> []"
    by (auto simp: eq split: sum.splits if_splits)
  from t have "list_all2 (\<lambda>mt t. process_table (row_regex r) pp mt = Inr t)
      (table_matches h r f content) tables" by (simp add: map_err_Inr_iff)
  then have "\<forall>t \<in> set tables. \<exists>mt. process_table (row_regex r) pp mt = Inr t"
    by (rule list_all2_right_ex)
  then have all: "\<forall>t \<in> set tables. list_of (row_record r) t"
    using process_table_shape by blast
  show ?thesis
  proof (cases last_one_only)
    case True
    with ne have "last tables \<in> set tables" by simp
    with all vt True show ?thesis by simp
  next
    case False
    with all vt show ?thesis by (simp add: list_of_def list_all_iff)
  qed
qed

lemma row_record_alt:
  "row_record r =
     (if row_names r = [] then positional_row (row_ngroups r) else named_row (row_names r))"
  by (rule ext) (simp add: row_record_def)

lemma compile_all_Inr:
  "compile_all patterns = Inr cps \<Longrightarrow>
     list_all2 (\<lambda>kv kp. fst kp = fst kv \<and> snd kp = compiled (snd kv)) patterns cps"
proof (induction patterns arbitrary: cps)
  case Nil
  then show ?case by simp
next
  case (Cons kv patterns)
  obtain k v where kv: "kv = (k, v)" by (cases kv)
  from Cons.prems kv obtain p cps' where p: "re_compile v no_flags = Inr p"
    and c: "compile_all patterns = Inr cps'" and cps: "cps = (k, p) # cps'"
    by (auto split: sum.splits)
  from p have "compiled v = p" by (simp add: compiled_def)
  with Cons.IH[OF c] kv cps show ?case by simp
qed

lemma compile_all_keys: "compile_all patterns = Inr cps \<Longrightarrow> map fst cps = map fst patterns"
proof -
  assume "compile_all patterns = Inr cps"
  from compile_all_Inr[OF this] show ?thesis
    by (induction rule: list_all2_induct) auto
qed

lemma compile_all_member:
  assumes "compile_all patterns = Inr cps" and "(k, p) \<in> set cps"
  shows "\<exists>v. (k, v) \<in> set patterns \<and> p = compiled v"
proof -
  from compile_all_Inr[OF assms(1)] assms(2) show ?thesis
    by (induction rule: list_all2_induct) auto
qed

lemma compile_all_member':
  assumes "compile_all patterns = Inr cps" and "(k, v) \<in> set patterns"
  shows "(k, compiled v) \<in> set cps"
proof -
  from compile_all_Inr[OF assms(1)] assms(2) show ?thesis
    by (induction rule: list_all2_induct) (auto simp: prod_eq_iff)
qed

lemma scan_line_unmatched:
  assumes "scan_line cps pp l i ms = Inr ms'"
    and "\<forall>kp \<in> set cps. fst kp = k \<longrightarrow> search (snd kp) l = None"
  shows "ms' k = ms k"
  using assms
proof (induction cps arbitrary: ms)
  case Nil
  then show ?case by simp
next
  case (Cons kp cps)
  obtain k' p where kp: "kp = (k', p)" by (cases kp)
  show ?case
  proof (cases "search p l")
    case None
    with Cons kp show ?thesis by simp
  next
    case (Some m)
    with Cons.prems(2) kp have ne: "k' \<noteq> k" by auto
    from Cons.prems(1) kp Some obtain gs where
      "scan_line cps pp l i (ms(k' \<mapsto> matches_get ms k' @ [(gs, i)])) = Inr ms'"
      by (auto split: sum.splits)
    from Cons.IH[OF this] Cons.prems(2) ne show ?thesis by simp
  qed
qed

lemma scan_lines_unmatched:
  assumes "scan_lines cps pp reverse terminate_on_match ls i ms = Inr ms'"
    and "\<forall>l \<in> set ls. \<forall>kp \<in> set cps. fst kp = k \<longrightarrow> search (snd kp) l = None"
  shows "ms' k = ms k"
  using assms
proof (induction ls arbitrary: i ms)
  case Nil
  then show ?case by simp
next
  case (Cons l ls)
  from Cons.prems(1) obtain ms1 where
    s1: "scan_line cps pp l (if reverse then - int i else int i) ms = Inr ms1"
    by (auto split: sum.splits)
  from scan_line_unmatched[OF s1] Cons.prems(2) have k1: "ms1 k = ms k" by simp
  show ?case
  proof (cases "terminate_on_match \<and> list_all (\<lambda>(k, p). matches_get ms1 k \<noteq> []) cps")
    case True
    with Cons.prems(1) s1 have "ms' = ms1" by simp
    with k1 show ?thesis by simp
  next
    case False
    with Cons.prems(1) s1 have
      "scan_lines cps pp reverse terminate_on_match ls (Suc i) ms1 = Inr ms'" by auto
    from Cons.IH[OF this] Cons.prems(2) k1 show ?thesis by simp
  qed
qed

lemma scan_line_succeeds:
  assumes "\<forall>kp \<in> set cps. case search (snd kp) l of
      None \<Rightarrow> True | Some m \<Rightarrow> \<not> isl (map_err pp (groups m))"
  shows "\<exists>ms'. scan_line cps pp l i ms = Inr ms'"
  using assms
proof (induction cps arbitrary: ms)
  case Nil
  then show ?case by simp
next
  case (Cons kp cps)
  obtain k p where kp: "kp = (k, p)" by (cases kp)
  show ?case
  proof (cases "search p l")
    case None
    with Cons kp show ?thesis by simp
  next
    case (Some m)
    with Cons.prems kp have "\<not> isl (map_err pp (groups m))" by simp
    then obtain gs where "map_err pp (groups m) = Inr gs"
      by (cases "map_err pp (groups m)") auto
    with Cons kp Some show ?thesis by simp
  qed
qed

lemma scan_lines_succeeds:
  assumes "\<forall>l \<in> set ls. \<forall>kp \<in> set cps. case search (snd kp) l of
      None \<Rightarrow> True | Some m \<Rightarrow> \<not> isl (map_err pp (groups m))"
  shows "\<exists>ms'. scan_lines cps pp reverse terminate_on_match ls i ms = Inr ms'"
  using assms
proof (induction ls arbitrary: i ms)
  case Nil
  then show ?case by simp
next
  case (Cons l ls)
  from Cons.prems have "\<forall>kp \<in> set cps. case search (snd kp) l of
      None \<Rightarrow> True | Some m \<Rightarrow> \<not> isl (map_err pp (groups m))" by simp
  from scan_line_succeeds[OF this] obtain ms1 where
    "scan_line cps pp l (if reverse then - int i else int i) ms = Inr ms1" by blast
  moreover from Cons.prems have "\<forall>l \<in> set ls. \<forall>kp \<in> set cps. case search (snd kp) l of
      None \<Rightarrow> True | Some m \<Rightarrow> \<not> isl (map_err pp (groups m))" by simp
  from Cons.IH[OF this] obtain ms2 where
    "scan_lines cps pp reverse terminate_on_match ls (Suc i) ms1 = Inr ms2" by blast
  ultimately show ?case by simp
qed

lemma fold_store_matches:
  "data (fold (store_matches ms) ks self) k =
     (if k \<in> set ks
      then Some (PyList (map (\<lambda>i. PyList (map Leaf (fst i))) (matches_get ms k)))
      else data self k)"
  by (induction ks arbitrary: self) (auto simp: store_matches_def)

lemma fold_store_matches_filename: "filename (fold (store_matches ms) ks self) = filename self"
  by (induction ks arbitrary: self) (auto simp: store_matches_def)

lemma read_pattern_Inr:
  assumes "read_pattern fs patterns reverse terminate_on_match pp self = (Inr u, self')"
  shows "\<exists>cps content ms. compile_all patterns = Inr cps \<and> fs (filename self) = Some content \<and>
    scan_lines cps pp reverse terminate_on_match (scanned_lines reverse content) 0 Map.empty
      = Inr ms \<and>
    self' = fold (store_matches ms) (map fst patterns) self"
  using assms
  by (auto simp: read_pattern_def regrep_def scanned_lines_def split: sum.splits option.splits)

lemma scan_line_key:
  assumes "distinct (map fst cps)" and "(k, p) \<in> set cps"
    and "scan_line cps pp l i ms = Inr ms'"
  shows "matches_get ms' k = matches_get ms k @ map (\<lambda>gs. (gs, i)) (line_entries p pp l)"
  using assms
proof (induction cps arbitrary: ms)
  case Nil
  then show ?case by simp
next
  case (Cons kp cps)
  obtain k' p' where kp: "kp = (k', p')" by (cases kp)
  from Cons.prems(1) kp have d: "distinct (map fst cps)" and nk': "k' \<notin> fst ` set cps" by auto
  show ?case
  proof (cases "(k, p) = (k', p')")
    case True
    with nk' have other: "\<forall>kp \<in> set cps. fst kp = k \<longrightarrow> search (snd kp) l = None" by auto
    show ?thesis
    proof (cases "search p l")
      case None
      with Cons.prems(3) kp True have "scan_line cps pp l i ms = Inr ms'" by simp
      from scan_line_unmatched[OF this other] None show ?thesis
        by (simp add: matches_get_def line_entries_def)
    next
      case (Some m)
      with Cons.prems(3) kp True obtain gs where g: "map_err pp (groups m) = Inr gs"
        and s: "scan_line cps pp l i (ms(k \<mapsto> matches_get ms k @ [(gs, i)])) = Inr ms'"
        by (auto split: sum.splits)
      from scan_line_unmatched[OF s other] Some g show ?thesis
        by (simp add: matches_get_def line_entries_def)
    qed
  next
    case False
    with Cons.prems(2) kp have mem: "(k, p) \<in> set cps" by auto
    then have "k \<in> fst ` set cps" by force
    with nk' have ne: "k' \<noteq> k" by auto
    show ?thesis
    proof (cases "search p' l")
      case None
      with Cons.prems(3) kp have "scan_line cps pp l i ms = Inr ms'" by simp
      from Cons.IH[OF d mem this] show ?thesis .
    next
      case (Some m)
      with Cons.prems(3) kp obtain gs where
        s: "scan_line cps pp l i (ms(k' \<mapsto> matches_get ms k' @ [(gs, i)])) = Inr ms'"
        by (auto split: sum.splits)
      from Cons.IH[OF d mem s] ne show ?thesis by (simp add: matches_get_def)
    qed
  qed
qed

lemma scan_lines_key:
  assumes "distinct (map fst cps)" and "(k, p) \<in> set cps"
    and "scan_lines cps pp reverse terminate_on_match ls i ms = Inr ms'"
  shows "\<exists>n \<le> length ls. (\<not> terminate_on_match \<longrightarrow> n = length ls) \<and>
    map fst (matches_get ms' k) =
      map fst (matches_get ms k) @ concat (map (line_entries p pp) (take n ls))"
  using assms(3)
proof (induction ls arbitrary: i ms)
  case Nil
  then show ?case by simp
next
  case (Cons l ls)
  from Cons.prems obtain ms1 where
    s1: "scan_line cps pp l (if reverse then - int i else int i) ms = Inr ms1"
    by (auto split: sum.splits)
  from scan_line_key[OF assms(1,2) s1]
  have k1: "map fst (matches_get ms1 k) = map fst (matches_get ms k) @ line_entries p pp l"
    by (simp add: comp_def)
  show ?case
  proof (cases "terminate_on_match \<and> list_all (\<lambda>(k, p). matches_get ms1 k \<noteq> []) cps")
    case True
    with Cons.prems s1 have "ms' = ms1" by simp
    with k1 True show ?thesis by (intro exI[of _ 1]) simp
  next
    case False
    with Cons.prems s1 have
      "scan_lines cps pp reverse terminate_on_match ls (Suc i) ms1 = Inr ms'" by auto
    from Cons.IH[OF this] obtain n where n: "n \<le> length ls"
      "\<not> terminate_on_match \<longrightarrow> n = length ls"
      "map fst (matches_get ms' k) =
        map fst (matches_get ms1 k) @ concat (map (line_entries p pp) (take n ls))" by blast
    with k1 show ?thesis by (intro exI[of _ "Suc n"]) simp
  qed
qed

lemma scan_lines_probe:
  assumes "scan_lines [(k, p)] pp reverse True ls i ms = Inr ms'"
  shows "matches_get ms' k \<noteq> [] \<longleftrightarrow>
    matches_get ms k \<noteq> [] \<or> (\<exists>l \<in> set ls. search p l \<noteq> None)"
  using assms
proof (induction ls arbitrary: i ms)
  case Nil
  then show ?case by simp
next
  case (Cons l ls)
  from Cons.prems obtain ms1 where
    s1: "scan_line [(k, p)] pp l (if reverse then - int i else int i) ms = Inr ms1"
    by (auto split: sum.splits)
  have m1: "matches_get ms1 k \<noteq> [] \<longleftrightarrow> matches_get ms k \<noteq> [] \<or> search p l \<noteq> None"
    using s1 by (auto simp: matches_get_def split: option.splits sum.splits)
  show ?case
  proof (cases "matches_get ms1 k \<noteq> []")
    case True
    with Cons.prems s1 have "ms' = ms1" by simp
    with True m1 show ?thesis by auto
  next
    case False
    with Cons.prems s1 have "scan_lines [(k, p)] pp reverse True ls (Suc i) ms1 = Inr ms'"
      by simp
    from Cons.IH[OF this] False m1 show ?thesis by auto
  qed
qed

lemma read_pattern_single:
  assumes "read_pattern fs [(k, v)] reverse terminate_on_match pp self = (Inr u, self')"
  shows "\<exists>x. filename self' = filename self \<and> data self' = (data self)(k \<mapsto> PyList x) \<and>
    (\<forall>other. filename other = filename self \<longrightarrow>
       data (snd (read_pattern fs [(k, v)] reverse terminate_on_match pp other)) k
         = Some (PyList x))"
proof -
  from assms obtain ms where
    r: "regrep fs (filename self) [(k, v)] reverse terminate_on_match pp = Inr ms"
    by (auto simp: read_pattern_def split: sum.splits)
  let ?x = "map (\<lambda>i. PyList (map Leaf (fst i))) (matches_get ms k)"
  from assms r have "self' = store_matches ms k self" by (simp add: read_pattern_def)
  then have "filename self' = filename self" "data self' = (data self)(k \<mapsto> PyList ?x)"
    by (simp_all add: store_matches_def)
  moreover have "data (snd (read_pattern fs [(k, v)] reverse terminate_on_match pp other)) k
      = Some (PyList ?x)" if "filename other = filename self" for other
    using that r by (simp add: read_pattern_def store_matches_def)
  ultimately show ?thesis by blast
qed

lemma read_pattern_probe:
  assumes "read_pattern fs [(k, v)] False True pp self = (Inr u, self')"
    and "fs (filename self) = Some content"
  shows "\<exists>x. filename self' = filename self \<and> data self' = (data self)(k \<mapsto> PyList x) \<and>
    (x \<noteq> [] \<longleftrightarrow> probe [(k, v)] content) \<and>
    (\<forall>other. filename other = filename self \<longrightarrow>
       data (snd (read_pattern fs [(k, v)] False True pp other)) k = Some (PyList x))"
proof -
  from read_pattern_Inr[OF assms(1)] assms(2) obtain cps ms where
    c: "compile_all [(k, v)] = Inr cps"
    and s: "scan_lines cps pp False True (scanned_lines False content) 0 Map.empty = Inr ms"
    and self': "self' = fold (store_matches ms) (map fst [(k, v)]) self"
    by auto
  from compile_all_Inr[OF c] have cps: "cps = [(k, compiled v)]"
    by (cases cps) (auto simp: prod_eq_iff)
  let ?x = "map (\<lambda>i. PyList (map Leaf (fst i))) (matches_get ms k)"
  from scan_lines_probe[OF s[unfolded cps]]
  have "matches_get ms k \<noteq> [] \<longleftrightarrow> (\<exists>l \<in> set (file_lines content). matches_line v l)"
    by (simp add: matches_get_def scanned_lines_def matches_line_def)
  then have p: "?x \<noteq> [] \<longleftrightarrow> probe [(k, v)] content"
    by (simp add: probe_def list_ex_iff)
  from self' have d: "data self' = (data self)(k \<mapsto> PyList ?x)"
    by (simp add: store_matches_def)
  from read_pattern_single[OF assms(1)] obtain y where y: "filename self' = filename self"
    "data self' = (data self)(k \<mapsto> PyList y)"
    "\<forall>other. filename other = filename self \<longrightarrow>
       data (snd (read_pattern fs [(k, v)] False True pp other)) k = Some (PyList y)" by blast
  have "data self' k = Some (PyList ?x)" using d by simp
  moreover have "data self' k = Some (PyList y)" using y(2) by simp
  ultimately have "y = ?x" by simp
  with p y show ?thesis by blast
qed

lemma map_err_py_str: "\<not> isl (map_err py_str xs)"
  by (induction xs) (auto simp: py_str_def split: option.splits sum.splits)

lemma read_pattern_py_str_returns:
  assumes "fs (filename self) = Some content" and "\<not> isl (compile_all patterns)"
  shows "\<exists>self'. read_pattern fs patterns reverse terminate_on_match py_str self = (Inr (), self')"
proof -
  from assms(2) obtain cps where c: "compile_all patterns = Inr cps"
    by (cases "compile_all patterns") auto
  have "\<forall>l \<in> set (scanned_lines reverse content). \<forall>kp \<in> set cps.
      case search (snd kp) l of None \<Rightarrow> True | Some m \<Rightarrow> \<not> isl (map_err py_str (groups m))"
    by (auto simp: map_err_py_str split: option.splits)
  from scan_lines_succeeds[OF this] obtain ms where
    "scan_lines cps py_str reverse terminate_on_match (scanned_lines reverse content) 0 Map.empty
      = Inr ms" by blast
  with c assms(1) show ?thesis
    by (simp add: read_pattern_def regrep_def scanned_lines_def)
qed

lemma scalar_patterns_compile:
  "\<not> isl (compile_all unrestricted_patterns) \<and> \<not> isl (compile_all using_GEN_SCFMAN_patterns) \<and>
   \<not> isl (compile_all final_energy_patterns) \<and> \<not> isl (compile_all S2_patterns)"
  by code_simp

lemma do_probe:
  assumes "patterns = [(k, v)]"
    and "fs (filename (snd w)) = Some content" and "\<not> isl (compile_all patterns)"
  shows "\<exists>x s'. do_read_pattern fs patterns False True py_str w =
      (Inr (), (fst w @ [Read_pattern patterns False True], s')) \<and>
    filename s' = filename (snd w) \<and> data s' = (data (snd w))(k \<mapsto> PyList x) \<and>
    (x \<noteq> [] \<longleftrightarrow> probe patterns content) \<and>
    data (snd (read_pattern fs patterns False True py_str (fresh (filename (snd w))))) k
      = Some (PyList x)"
proof -
  from read_pattern_py_str_returns[where fs = fs and self = "snd w", OF assms(2,3)]
  obtain s' where
    r: "read_pattern fs [(k, v)] False True py_str (snd w) = (Inr (), s')"
    unfolding assms(1) by blast
  from read_pattern_probe[OF r assms(2)] obtain x where
    "filename s' = filename (snd w)" "data s' = (data (snd w))(k \<mapsto> PyList x)"
    "x \<noteq> [] \<longleftrightarrow> probe [(k, v)] content"
    "\<forall>other. filename other = filename (snd w) \<longrightarrow>
       data (snd (read_pattern fs [(k, v)] False True py_str other)) k = Some (PyList x)"
    by blast
  moreover have "filename (fresh (filename (snd w))) = filename (snd w)"
    by (simp add: fresh_def)
  moreover from r have "do_read_pattern fs [(k, v)] False True py_str w =
      (Inr (), (fst w @ [Read_pattern [(k, v)] False True], s'))"
    by (simp add: do_read_pattern_def)
  ultimately show ?thesis unfolding assms(1) by blast
qed

lemma do_scalar:
  assumes "patterns = [(k, v)]"
    and "fs (filename (snd w)) = Some content" and "\<not> isl (compile_all patterns)"
  shows "\<exists>x s'. do_read_pattern fs patterns False False py_str w =
      (Inr (), (fst w @ [Read_pattern patterns False False], s')) \<and>
    filename s' = filename (snd w) \<and> data s' = (data (snd w))(k \<mapsto> PyList x) \<and>
    data (snd (read_pattern fs patterns False False py_str (fresh (filename (snd w))))) k
      = Some (PyList x)"
proof -
  from read_pattern_py_str_returns[where fs = fs and self = "snd w", OF assms(2,3)]
  obtain s' where
    r: "read_pattern fs [(k, v)] False False py_str (snd w) = (Inr (), s')"
    unfolding assms(1) by blast
  from read_pattern_single[OF r] obtain x where
    "filename s' = filename (snd w)" "data s' = (data (snd w))(k \<mapsto> PyList x)"
    "\<forall>other. filename other = filename (snd w) \<longrightarrow>
       data (snd (read_pattern fs [(k, v)] False False py_str other)) k = Some (PyList x)"
    by blast
  moreover have "filename (fresh (filename (snd w))) = filename (snd w)"
    by (simp add: fresh_def)
  moreover from r have "do_read_pattern fs [(k, v)] False False py_str w =
      (Inr (), (fst w @ [Read_pattern [(k, v)] False False], s'))"
    by (simp add: do_read_pattern_def)
  ultimately show ?thesis unfolding assms(1) by blast
qed

lemma read_table_pattern_fst_filename:
  "filename s = filename t \<Longrightarrow>
     fst (read_table_pattern fs h r f pp a l s) = fst (read_table_pattern fs h r f pp a l t)"
  by (auto simp: read_table_pattern_def Let_def split: option.splits sum.splits)

lemma read_table_pattern_snd:
  "snd (read_table_pattern fs h r f pp a l s) =
     (case fst (read_table_pattern fs h r f pp a l s) of
        Inl e \<Rightarrow> s
      | Inr v \<Rightarrow> stored a v s)"
  by (auto simp: read_table_pattern_def stored_def Let_def split: option.splits sum.splits)

lemma table_reader:
  fixes fs :: files and h r f a :: string and w :: "string session"
  defines "res \<equiv> table_result fs (filename (snd w)) (Table_call h r f (Some a) False)"
  shows "(case do_read_table_pattern fs h r f py_str (Some a) False w of
        (Inl e, w') \<Rightarrow> (Inl e, w')
      | (Inr r, w') \<Rightarrow> data_item w' a) =
    (res, (fst w @ [Read_table_pattern (Table_call h r f (Some a) False)],
       (case res of Inl e \<Rightarrow> snd w | Inr v \<Rightarrow> (snd w)\<lparr>data := (data (snd w))(a \<mapsto> v)\<rparr>)))"
proof -
  let ?rt = "read_table_pattern fs h r f py_str (Some a) False (snd w)"
  have fr: "fst ?rt = res"
    unfolding res_def
    by (simp add: read_table_pattern_fst_filename[of "snd w" "fresh (filename (snd w))"]
        fresh_def)
  have "?rt = (fst ?rt, snd ?rt)" by simp
  then have rt: "?rt = (res, (case res of Inl e \<Rightarrow> snd w | Inr v \<Rightarrow> stored (Some a) v (snd w)))"
    using fr read_table_pattern_snd[of fs h r f py_str "Some a" False "snd w"] by simp
  show ?thesis
  proof (cases res)
    case (Inl e)
    with rt show ?thesis by (simp add: do_read_table_pattern_def)
  next
    case (Inr v)
    with rt show ?thesis
      by (simp add: do_read_table_pattern_def data_item_def stored_def)
  qed
qed

lemma read_GEN_SCFMAN_eq:
  "read_GEN_SCFMAN fs w =
     (table_result fs (filename (snd w)) GEN_SCFMAN_call, (fst w @ [Read_table_pattern GEN_SCFMAN_call],
        (case table_result fs (filename (snd w)) GEN_SCFMAN_call of
           Inl e \<Rightarrow> snd w
         | Inr v \<Rightarrow> (snd w)\<lparr>data := (data (snd w))(''GEN_SCFMAN'' \<mapsto> v)\<rparr>)))"
  unfolding read_GEN_SCFMAN_def GEN_SCFMAN_call_def Let_def by (rule table_reader)

lemma read_SCF_eq:
  "read_SCF fs w =
     (table_result fs (filename (snd w)) SCF_call, (fst w @ [Read_table_pattern SCF_call],
        (case table_result fs (filename (snd w)) SCF_call of
           Inl e \<Rightarrow> snd w
         | Inr v \<Rightarrow> (snd w)\<lparr>data := (data (snd w))(''SCF'' \<mapsto> v)\<rparr>)))"
  unfolding read_SCF_def SCF_call_def Let_def by (rule table_reader)

lemma read_restricted_mulliken_eq:
  "read_restricted_mulliken fs w =
     (table_result fs (filename (snd w)) restricted_mulliken_call,
      (fst w @ [Read_table_pattern restricted_mulliken_call],
        (case table_result fs (filename (snd w)) restricted_mulliken_call of
           Inl e \<Rightarrow> snd w
         | Inr v \<Rightarrow> (snd w)\<lparr>data := (data (snd w))(''restricted_Mulliken'' \<mapsto> v)\<rparr>)))"
  unfolding read_restricted_mulliken_def restricted_mulliken_call_def Let_def
  by (rule table_reader)

lemma read_unrestricted_mulliken_eq:
  "read_unrestricted_mulliken fs w =
     (table_result fs (filename (snd w)) unrestricted_mulliken_call,
      (fst w @ [Read_table_pattern unrestricted_mulliken_call],
        (case table_result fs (filename (snd w)) unrestricted_mulliken_call of
           Inl e \<Rightarrow> snd w
         | Inr v \<Rightarrow> (snd w)\<lparr>data := (data (snd w))(''unrestricted_Mulliken'' \<mapsto> v)\<rparr>)))"
  unfolding read_unrestricted_mulliken_def unrestricted_mulliken_call_def Let_def
  by (rule table_reader)

lemma parse_SCF_eq:
  assumes "filename s = fname"
    and "truthy (data_get s ''using_GEN_SCFMAN'') \<longleftrightarrow> probe using_GEN_SCFMAN_patterns text"
  shows "parse_SCF fs (j, s) =
     (table_result fs fname (SCF_choice text), (j @ [Read_table_pattern (SCF_choice text)],
        (case table_result fs fname (SCF_choice text) of
           Inl e \<Rightarrow> s
         | Inr v \<Rightarrow> s\<lparr>data := (data s)
             ((if probe using_GEN_SCFMAN_patterns text then ''GEN_SCFMAN'' else ''SCF'')
                \<mapsto> v)\<rparr>)))"
  using assms
  by (cases "probe using_GEN_SCFMAN_patterns text")
    (simp_all add: parse_SCF_def SCF_choice_def read_GEN_SCFMAN_eq read_SCF_eq
      split: sum.splits)

lemma parse_mulliken_eq:
  assumes "filename s = fname"
    and "truthy (data_get s ''unrestricted'') \<longleftrightarrow> probe unrestricted_patterns text"
  shows "parse_mulliken fs (j, s) =
     (table_result fs fname (mulliken_choice text),
      (j @ [Read_table_pattern (mulliken_choice text)],
        (case table_result fs fname (mulliken_choice text) of
           Inl e \<Rightarrow> s
         | Inr v \<Rightarrow> s\<lparr>data := (data s)
             ((if probe unrestricted_patterns text then ''unrestricted_Mulliken''
               else ''restricted_Mulliken'') \<mapsto> v)\<rparr>)))"
  using assms
  by (cases "probe unrestricted_patterns text")
    (simp_all add: parse_mulliken_def mulliken_choice_def read_unrestricted_mulliken_eq
      read_restricted_mulliken_eq split: sum.splits)

lemma expected_calls_members:
  "(Read_table_pattern GEN_SCFMAN_call \<in> set (expected_calls text) \<longleftrightarrow>
      probe using_GEN_SCFMAN_patterns text) \<and>
   (Read_table_pattern SCF_call \<in> set (expected_calls text) \<longleftrightarrow>
      \<not> probe using_GEN_SCFMAN_patterns text) \<and>
   (Read_table_pattern unrestricted_mulliken_call \<in> set (expected_calls text) \<longleftrightarrow>
      probe unrestricted_patterns text) \<and>
   (Read_table_pattern restricted_mulliken_call \<in> set (expected_calls text) \<longleftrightarrow>
      \<not> probe unrestricted_patterns text) \<and>
   (Read_pattern S2_patterns False False \<in> set (expected_calls text) \<longleftrightarrow>
      probe unrestricted_patterns text) \<and>
   Read_pattern final_energy_patterns False False \<in> set (expected_calls text)"
  by (simp add: expected_calls_def SCF_choice_def mulliken_choice_def GEN_SCFMAN_call_def
      SCF_call_def unrestricted_mulliken_call_def restricted_mulliken_call_def
      S2_patterns_def final_energy_patterns_def)

lemma init_run_cases:
  assumes "fs fname = Some text"
  obtains (SCF_raises) e s where
      "table_result fs fname (SCF_choice text) = Inl e"
      "init_run fs fname = (Inl e, (take 3 (expected_calls text), s))"
  | (mulliken_raises) v3 e s where
      "table_result fs fname (SCF_choice text) = Inr v3"
      "table_result fs fname (mulliken_choice text) = Inl e"
      "init_run fs fname = (Inl e, (take 4 (expected_calls text), s))"
  | (returns) v3 v4 x1 x2 y5 y6 s where
      "table_result fs fname (SCF_choice text) = Inr v3"
      "table_result fs fname (mulliken_choice text) = Inr v4"
      "init_run fs fname = (Inr (), (expected_calls text, s))"
      "data s =
         (if probe unrestricted_patterns text
          then [''unrestricted'' \<mapsto> PyList x1, ''using_GEN_SCFMAN'' \<mapsto> PyList x2,
                (if probe using_GEN_SCFMAN_patterns text then ''GEN_SCFMAN'' else ''SCF'') \<mapsto> v3,
                ''unrestricted_Mulliken'' \<mapsto> v4,
                ''final_energy'' \<mapsto> PyList y5, ''S2'' \<mapsto> PyList y6]
          else [''unrestricted'' \<mapsto> PyList x1, ''using_GEN_SCFMAN'' \<mapsto> PyList x2,
                (if probe using_GEN_SCFMAN_patterns text then ''GEN_SCFMAN'' else ''SCF'') \<mapsto> v3,
                ''restricted_Mulliken'' \<mapsto> v4,
                ''final_energy'' \<mapsto> PyList y5])"
      "data (snd (read_pattern fs unrestricted_patterns False True py_str (fresh fname)))
         ''unrestricted'' = Some (PyList x1)"
      "data (snd (read_pattern fs using_GEN_SCFMAN_patterns False True py_str (fresh fname)))
         ''using_GEN_SCFMAN'' = Some (PyList x2)"
      "data (snd (read_pattern fs final_energy_patterns False False py_str (fresh fname)))
         ''final_energy'' = Some (PyList y5)"
      "probe unrestricted_patterns text \<longrightarrow>
       data (snd (read_pattern fs S2_patterns False False py_str (fresh fname))) ''S2''
         = Some (PyList y6)"
proof -
  let ?gen = "probe using_GEN_SCFMAN_patterns text"
  let ?unr = "probe unrestricted_patterns text"
  let ?c1 = "Read_pattern unrestricted_patterns False True"
  let ?c2 = "Read_pattern using_GEN_SCFMAN_patterns False True"
  let ?c3 = "Read_table_pattern (SCF_choice text)"
  let ?c4 = "Read_table_pattern (mulliken_choice text)"
  let ?c5 = "Read_pattern final_energy_patterns False False"
  let ?c6 = "Read_pattern S2_patterns False False"
  let ?scf = "table_result fs fname (SCF_choice text)"
  let ?mul = "table_result fs fname (mulliken_choice text)"
  let ?k3 = "if ?gen then ''GEN_SCFMAN'' else ''SCF''"
  let ?k4 = "if ?unr then ''unrestricted_Mulliken'' else ''restricted_Mulliken''"
  note comp = scalar_patterns_compile
  have pu: "unrestricted_patterns = [(''unrestricted'', snd (hd unrestricted_patterns))]"
    by (simp add: unrestricted_patterns_def)
  have pg: "using_GEN_SCFMAN_patterns =
      [(''using_GEN_SCFMAN'', snd (hd using_GEN_SCFMAN_patterns))]"
    by (simp add: using_GEN_SCFMAN_patterns_def)
  have pf: "final_energy_patterns = [(''final_energy'', snd (hd final_energy_patterns))]"
    by (simp add: final_energy_patterns_def)
  have ps: "S2_patterns = [(''S2'', snd (hd S2_patterns))]"
    by (simp add: S2_patterns_def)
  \<comment> \<open>the two probes\<close>
  have f0: "fs (filename (snd ([] :: call list, fresh fname))) = Some text"
    using assms by (simp add: fresh_def)
  from do_probe[where fs = fs and w = "([], fresh fname)", OF pu f0 comp[THEN conjunct1]]
  obtain x1 s1 where
    r1: "do_read_pattern fs unrestricted_patterns False True py_str ([], fresh fname) =
      (Inr (), ([?c1], s1))"
    and f1: "filename s1 = fname"
    and d1: "data s1 = [''unrestricted'' \<mapsto> PyList x1]"
    and t1: "x1 \<noteq> [] \<longleftrightarrow> ?unr"
    and v1: "data (snd (read_pattern fs unrestricted_patterns False True py_str (fresh fname)))
      ''unrestricted'' = Some (PyList x1)"
    by (auto simp: fresh_def)
  have f1': "fs (filename (snd ([?c1], s1))) = Some text" using assms f1 by simp
  from do_probe[where fs = fs and w = "([?c1], s1)", OF pg f1'
      comp[THEN conjunct2, THEN conjunct1]]
  obtain x2 s2 where
    r2: "do_read_pattern fs using_GEN_SCFMAN_patterns False True py_str ([?c1], s1) =
      (Inr (), ([?c1, ?c2], s2))"
    and f2: "filename s2 = fname"
    and d2: "data s2 = [''unrestricted'' \<mapsto> PyList x1, ''using_GEN_SCFMAN'' \<mapsto> PyList x2]"
    and t2: "x2 \<noteq> [] \<longleftrightarrow> ?gen"
    and v2: "data (snd (read_pattern fs using_GEN_SCFMAN_patterns False True py_str
      (fresh fname))) ''using_GEN_SCFMAN'' = Some (PyList x2)"
    by (auto simp: f1 d1)
  \<comment> \<open>the tables of the SCF cycles\<close>
  have g2: "truthy (data_get s2 ''using_GEN_SCFMAN'') \<longleftrightarrow> ?gen"
    using d2 t2 by (simp add: data_get_def)
  note r3 = parse_SCF_eq[where fs = fs and j = "[?c1, ?c2]", OF f2 g2]
  have start: "init_run fs fname =
     (case parse_SCF fs ([?c1, ?c2], s2) of
        (Inl e, w) \<Rightarrow> (Inl e, w)
      | (Inr r, w) \<Rightarrow>
     (case parse_mulliken fs w of
        (Inl e, w) \<Rightarrow> (Inl e, w)
      | (Inr r, w) \<Rightarrow>
     (case do_read_pattern fs final_energy_patterns False False py_str w of
        (Inl e, w) \<Rightarrow> (Inl e, w)
      | (Inr u, w) \<Rightarrow> parse_S2 fs w)))"
    using r1 r2 by (simp add: init_run_def fresh_def)
  show thesis
  proof (cases ?scf)
    case (Inl e)
    with start r3 have "init_run fs fname = (Inl e, (take 3 (expected_calls text), s2))"
      by (simp add: expected_calls_def)
    with Inl show thesis by (rule SCF_raises)
  next
    case scf: (Inr v3)
    define s3 where "s3 = s2\<lparr>data := (data s2)(?k3 \<mapsto> v3)\<rparr>"
    have f3: "filename s3 = fname" using f2 by (simp add: s3_def)
    have d3: "data s3 = [''unrestricted'' \<mapsto> PyList x1, ''using_GEN_SCFMAN'' \<mapsto> PyList x2,
        ?k3 \<mapsto> v3]"
      using d2 by (simp add: s3_def)
    have u3: "truthy (data_get s3 ''unrestricted'') \<longleftrightarrow> ?unr"
      using d3 t1 by (simp add: data_get_def)
    note r4 = parse_mulliken_eq[where fs = fs and j = "[?c1, ?c2, ?c3]", OF f3 u3]
    have cont: "init_run fs fname =
       (case parse_mulliken fs ([?c1, ?c2, ?c3], s3) of
          (Inl e, w) \<Rightarrow> (Inl e, w)
        | (Inr r, w) \<Rightarrow>
       (case do_read_pattern fs final_energy_patterns False False py_str w of
          (Inl e, w) \<Rightarrow> (Inl e, w)
        | (Inr u, w) \<Rightarrow> parse_S2 fs w))"
      using start r3 scf by (simp add: s3_def)
    show thesis
    proof (cases ?mul)
      case (Inl e)
      with cont r4 have "init_run fs fname = (Inl e, (take 4 (expected_calls text), s3))"
        by (simp add: expected_calls_def)
      with scf Inl show thesis by (rule mulliken_raises)
    next
      case mul: (Inr v4)
      define s4 where "s4 = s3\<lparr>data := (data s3)(?k4 \<mapsto> v4)\<rparr>"
      have f4: "fs (filename (snd ([?c1, ?c2, ?c3, ?c4], s4))) = Some text"
        using f3 assms by (simp add: s4_def)
      have d4: "data s4 = [''unrestricted'' \<mapsto> PyList x1, ''using_GEN_SCFMAN'' \<mapsto> PyList x2,
          ?k3 \<mapsto> v3, ?k4 \<mapsto> v4]"
        using d3 by (simp add: s4_def)
      have cont2: "init_run fs fname =
         (case do_read_pattern fs final_energy_patterns False False py_str
                 ([?c1, ?c2, ?c3, ?c4], s4) of
            (Inl e, w) \<Rightarrow> (Inl e, w)
          | (Inr u, w) \<Rightarrow> parse_S2 fs w)"
        using cont r4 mul by (simp add: s4_def)
      from do_scalar[where fs = fs and w = "([?c1, ?c2, ?c3, ?c4], s4)", OF pf f4
          comp[THEN conjunct2, THEN conjunct2, THEN conjunct1]]
      obtain y5 s5 where
        r5: "do_read_pattern fs final_energy_patterns False False py_str
            ([?c1, ?c2, ?c3, ?c4], s4) = (Inr (), ([?c1, ?c2, ?c3, ?c4, ?c5], s5))"
        and f5: "filename s5 = fname"
        and d5: "data s5 = [''unrestricted'' \<mapsto> PyList x1, ''using_GEN_SCFMAN'' \<mapsto> PyList x2,
          ?k3 \<mapsto> v3, ?k4 \<mapsto> v4, ''final_energy'' \<mapsto> PyList y5]"
        and v5: "data (snd (read_pattern fs final_energy_patterns False False py_str
          (fresh fname))) ''final_energy'' = Some (PyList y5)"
        using f3 by (auto simp: s4_def d4[unfolded s4_def])
      have u5: "truthy (data_get s5 ''unrestricted'') \<longleftrightarrow> ?unr"
        using d5 t1 by (simp add: data_get_def)
      have cont3: "init_run fs fname = parse_S2 fs ([?c1, ?c2, ?c3, ?c4, ?c5], s5)"
        using cont2 r5 by simp
      show thesis
      proof (cases ?unr)
        case True
        have f5': "fs (filename (snd ([?c1, ?c2, ?c3, ?c4, ?c5], s5))) = Some text"
          using f5 assms by simp
        from do_scalar[where fs = fs and w = "([?c1, ?c2, ?c3, ?c4, ?c5], s5)", OF ps f5'
            comp[THEN conjunct2, THEN conjunct2, THEN conjunct2]]
        obtain y6 s6 where
          r6: "do_read_pattern fs S2_patterns False False py_str
              ([?c1, ?c2, ?c3, ?c4, ?c5], s5) = (Inr (), ([?c1, ?c2, ?c3, ?c4, ?c5, ?c6], s6))"
          and d6: "data s6 = (data s5)(''S2'' \<mapsto> PyList y6)"
          and v6: "data (snd (read_pattern fs S2_patterns False False py_str (fresh fname)))
            ''S2'' = Some (PyList y6)"
          using f5 by auto
        from cont3 r6 u5 True have
          ir: "init_run fs fname = (Inr (), (expected_calls text, s6))"
          by (simp add: parse_S2_def expected_calls_def)
        from d6 d5 True have ds: "data s6 =
         (if ?unr
          then [''unrestricted'' \<mapsto> PyList x1, ''using_GEN_SCFMAN'' \<mapsto> PyList x2,
                ?k3 \<mapsto> v3, ''unrestricted_Mulliken'' \<mapsto> v4,
                ''final_energy'' \<mapsto> PyList y5, ''S2'' \<mapsto> PyList y6]
          else [''unrestricted'' \<mapsto> PyList x1, ''using_GEN_SCFMAN'' \<mapsto> PyList x2,
                ?k3 \<mapsto> v3, ''restricted_Mulliken'' \<mapsto> v4,
                ''final_energy'' \<mapsto> PyList y5])" by simp
        from v6 have v6': "?unr \<longrightarrow>
            data (snd (read_pattern fs S2_patterns False False py_str (fresh fname))) ''S2''
              = Some (PyList y6)" by simp
        show thesis by (rule returns[OF scf mul ir ds v1 v2 v5 v6'])
      next
        case False
        from cont3 u5 False have
          ir: "init_run fs fname = (Inr (), (expected_calls text, s5))"
          by (simp add: parse_S2_def expected_calls_def)
        from d5 False have ds: "data s5 =
         (if ?unr
          then [''unrestricted'' \<mapsto> PyList x1, ''using_GEN_SCFMAN'' \<mapsto> PyList x2,
                ?k3 \<mapsto> v3, ''unrestricted_Mulliken'' \<mapsto> v4,
                ''final_energy'' \<mapsto> PyList y5, ''S2'' \<mapsto> PyList []]
          else [''unrestricted'' \<mapsto> PyList x1, ''using_GEN_SCFMAN'' \<mapsto> PyList x2,
                ?k3 \<mapsto> v3, ''restricted_Mulliken'' \<mapsto> v4,
                ''final_energy'' \<mapsto> PyList y5])" by simp
        from False have v6': "?unr \<longrightarrow>
            data (snd (read_pattern fs S2_patterns False False py_str (fresh fname))) ''S2''
              = Some (PyList [])" by simp
        show thesis by (rule returns[OF scf mul ir ds v1 v2 v5 v6'])
      qed
    qed
  qed
qed

lemma map_err_first_error:
  "(case map_err f xs of Inl e \<Rightarrow> Some e | Inr ys \<Rightarrow> None) = first_error f xs"
  by (induction xs) (auto split: sum.splits)

lemma first_error_append:
  "first_error f (xs @ ys) =
     (case first_error f xs of Some e \<Rightarrow> Some e | None \<Rightarrow> first_error f ys)"
  by (induction xs) (auto split: sum.splits)

lemma first_error_concat:
  assumes "\<forall>x \<in> set xs. first_error f (c x) = (case g x of Inl e \<Rightarrow> Some e | Inr y \<Rightarrow> None)"
  shows "first_error f (concat (map c xs)) = first_error g xs"
  using assms by (induction xs) (auto simp: first_error_append split: sum.splits)

lemma first_error_named:
  "first_error (\<lambda>(k, v). case pp v of Inl e \<Rightarrow> Inl e | Inr w \<Rightarrow> Inr (k, Leaf w)) d =
     first_error pp (map snd d)"
  by (induction d) (auto split: sum.splits)

lemma process_line_first_error:
  assumes "search (row_regex r) line \<noteq> None"
  shows "first_error pp (line_captured r line) =
    (case process_line (row_regex r) pp line of Inl e \<Rightarrow> Some e | Inr row \<Rightarrow> None)"
proof -
  from assms obtain ml where ml: "search (row_regex r) line = Some ml" by auto
  let ?f = "\<lambda>(k, v). case pp v of Inl e \<Rightarrow> Inl e | Inr w \<Rightarrow> Inr (k, Leaf w)"
  show ?thesis
  proof (cases "length (groupdict ml) > 0")
    case True
    with ml have "process_line (row_regex r) pp line =
        (case map_err ?f (groupdict ml) of Inl e \<Rightarrow> Inl e | Inr kvs \<Rightarrow> Inr (PyDict kvs))"
      by (simp add: process_line_def)
    then have "(case process_line (row_regex r) pp line of Inl e \<Rightarrow> Some e | Inr row \<Rightarrow> None) =
        (case map_err ?f (groupdict ml) of Inl e \<Rightarrow> Some e | Inr kvs \<Rightarrow> None)"
      by (simp split: sum.splits)
    also have "\<dots> = first_error ?f (groupdict ml)" by (rule map_err_first_error)
    also have "\<dots> = first_error pp (map snd (groupdict ml))" by (rule first_error_named)
    finally show ?thesis using ml True by (simp add: line_captured_def captured_def)
  next
    case False
    with ml have "process_line (row_regex r) pp line =
        (case map_err pp (groups ml) of Inl e \<Rightarrow> Inl e | Inr vs \<Rightarrow> Inr (PyList (map Leaf vs)))"
      by (simp add: process_line_def)
    then have "(case process_line (row_regex r) pp line of Inl e \<Rightarrow> Some e | Inr row \<Rightarrow> None) =
        (case map_err pp (groups ml) of Inl e \<Rightarrow> Some e | Inr vs \<Rightarrow> None)"
      by (simp split: sum.splits)
    also have "\<dots> = first_error pp (groups ml)" by (rule map_err_first_error)
    finally show ?thesis using ml False by (simp add: line_captured_def captured_def)
  qed
qed

lemma process_table_first_error:
  assumes "group mt ''table_body'' = Inr (Some body)"
    and "list_all (\<lambda>line. search (row_regex r) line \<noteq> None) (split_nl body)"
  shows "first_error pp (table_captured r mt) =
    (case process_table (row_regex r) pp mt of Inl e \<Rightarrow> Some e | Inr t \<Rightarrow> None)"
proof -
  have "\<forall>line \<in> set (split_nl body).
      first_error pp (line_captured r line) =
        (case process_line (row_regex r) pp line of Inl e \<Rightarrow> Some e | Inr row \<Rightarrow> None)"
  proof
    fix line
    assume "line \<in> set (split_nl body)"
    with assms(2) have "search (row_regex r) line \<noteq> None" by (simp add: list_all_iff)
    then show "first_error pp (line_captured r line) =
        (case process_line (row_regex r) pp line of Inl e \<Rightarrow> Some e | Inr row \<Rightarrow> None)"
      by (rule process_line_first_error)
  qed
  from first_error_concat[where f = pp and c = "line_captured r"
      and g = "process_line (row_regex r) pp", OF this]
  have fe: "first_error pp (table_captured r mt) =
      first_error (process_line (row_regex r) pp) (split_nl body)"
    using assms(1) by (simp add: table_captured_def)
  from assms(1) have "process_table (row_regex r) pp mt =
      (case map_err (process_line (row_regex r) pp) (split_nl body) of
         Inl e \<Rightarrow> Inl e
       | Inr table_contents \<Rightarrow> Inr (PyList table_contents))"
    by (simp add: process_table_def)
  then have "(case process_table (row_regex r) pp mt of Inl e \<Rightarrow> Some e | Inr t \<Rightarrow> None) =
      (case map_err (process_line (row_regex r) pp) (split_nl body) of
         Inl e \<Rightarrow> Some e
       | Inr rows \<Rightarrow> None)"
    by (simp split: sum.splits)
  also have "\<dots> = first_error (process_line (row_regex r) pp) (split_nl body)"
    by (rule map_err_first_error)
  finally show ?thesis using fe by simp
qed

lemma well_formed_first_error:
  assumes "well_formed_tables h r f text"
  shows "first_error pp (all_captured h r f text) =
    (case map_err (process_table (row_regex r) pp) (table_matches h r f text) of
       Inl e \<Rightarrow> Some e
     | Inr tables \<Rightarrow> None)"
proof -
  have "\<forall>mt \<in> set (table_matches h r f text).
      first_error pp (table_captured r mt) =
        (case process_table (row_regex r) pp mt of Inl e \<Rightarrow> Some e | Inr t \<Rightarrow> None)"
  proof
    fix mt
    assume "mt \<in> set (table_matches h r f text)"
    with assms have wf: "case group mt ''table_body'' of
         Inr (Some body) \<Rightarrow> list_all (\<lambda>line. search (row_regex r) line \<noteq> None) (split_nl body)
       | _ \<Rightarrow> False"
      by (simp add: well_formed_tables_def list_all_iff)
    then obtain body where "group mt ''table_body'' = Inr (Some body)"
      by (cases "group mt ''table_body''"; cases "projr (group mt ''table_body'')") auto
    moreover with wf have
      "list_all (\<lambda>line. search (row_regex r) line \<noteq> None) (split_nl body)" by simp
    ultimately show "first_error pp (table_captured r mt) =
        (case process_table (row_regex r) pp mt of Inl e \<Rightarrow> Some e | Inr t \<Rightarrow> None)"
      by (rule process_table_first_error)
  qed
  from first_error_concat[where f = pp and c = "table_captured r"
      and g = "process_table (row_regex r) pp", OF this]
  have "first_error pp (all_captured h r f text) =
      first_error (process_table (row_regex r) pp) (table_matches h r f text)"
    by (simp add: all_captured_def)
  then show ?thesis by (simp add: map_err_first_error)
qed

lemma split_nl_not_Nil: "split_nl s \<noteq> []"
  by (induction s) (auto split: list.splits)

lemma join_nl_Cons: "join_nl ((c # l) # ls) = c # join_nl (l # ls)"
  by (cases ls) simp_all

lemma join_nl_split_nl: "join_nl (split_nl s) = s"
proof (induction s)
  case Nil
  show ?case by simp
next
  case (Cons c cs)
  obtain l ls where l: "split_nl cs = l # ls"
    using split_nl_not_Nil[of cs] by (cases "split_nl cs") auto
  with Cons show ?case by (simp add: join_nl_Cons)
qed

lemma split_nl_no_newline: "\<forall>line \<in> set (split_nl s). newline \<notin> set line"
  by (induction s) (auto split: list.splits)

subsection \<open>Texts without a table\<close>

text \<open>
  Claim C9. When the compound header/body/footer pattern matches nowhere in the text, a
  call with \<^verbatim>\<open>last_one_only=False\<close> returns the empty list of tables without raising,
  and stores the empty list under the attribute name when one is given. (The file can
  be read and the pattern strings compile.)
\<close>

theorem no_match_returns_empty_list:
  assumes "fs (filename self) = Some text" and "valid_patterns h r f"
    and "table_matches h r f text = []"
  shows "read_table_pattern fs h r f pp attribute_name False self =
    (Inr (PyList []), stored attribute_name (PyList []) self)"
  using read_table_pattern_valid[where fs = fs and self = self, OF assms(1,2)] assms(3)
  by simp

theorem no_match_returns_empty_list_witness:
  "[''qc.out'' \<mapsto> ex_no_table] (filename ex_self) = Some ex_no_table \<and>
   valid_patterns ex_header ex_row ex_footer \<and>
   table_matches ex_header ex_row ex_footer ex_no_table = [] \<and>
   read_table_pattern [''qc.out'' \<mapsto> ex_no_table] ex_header ex_row ex_footer py_str
       (Some ''SCF'') False ex_self =
     (Inr (PyList []), stored (Some ''SCF'') (PyList []) ex_self)"
proof -
  have h1: "[''qc.out'' \<mapsto> ex_no_table] (filename ex_self) = Some ex_no_table"
    by (simp add: ex_self_def)
  have h2: "valid_patterns ex_header ex_row ex_footer" by code_simp
  have h3: "table_matches ex_header ex_row ex_footer ex_no_table = []" by code_simp
  from no_match_returns_empty_list[where fs = "[''qc.out'' \<mapsto> ex_no_table]"
      and self = ex_self, OF h1 h2 h3] h1 h2 h3
  show ?thesis by simp
qed

text \<open>
  Claim C10. When the compound pattern matches nowhere and \<^verbatim>\<open>last_one_only=True\<close>, the
  call raises \<^verbatim>\<open>IndexError\<close> (the last element of the empty list of tables) before
  anything is assigned: the object is unchanged and no empty result is returned.
\<close>

theorem no_match_last_one_only_raises:
  assumes "fs (filename self) = Some text" and "valid_patterns h r f"
    and "table_matches h r f text = []"
  shows "read_table_pattern fs h r f pp attribute_name True self = (Inl IndexError, self)"
  using read_table_pattern_valid[where fs = fs and self = self, OF assms(1,2)] assms(3)
  by simp

theorem no_match_last_one_only_raises_witness:
  "[''qc.out'' \<mapsto> ex_no_table] (filename ex_self) = Some ex_no_table \<and>
   valid_patterns ex_header ex_row ex_footer \<and>
   table_matches ex_header ex_row ex_footer ex_no_table = [] \<and>
   read_table_pattern [''qc.out'' \<mapsto> ex_no_table] ex_header ex_row ex_footer py_str
       (Some ''SCF'') True ex_self = (Inl IndexError, ex_self)"
proof -
  have h1: "[''qc.out'' \<mapsto> ex_no_table] (filename ex_self) = Some ex_no_table"
    by (simp add: ex_self_def)
  have h2: "valid_patterns ex_header ex_row ex_footer" by code_simp
  have h3: "table_matches ex_header ex_row ex_footer ex_no_table = []" by code_simp
  from no_match_last_one_only_raises[where fs = "[''qc.out'' \<mapsto> ex_no_table]"
      and self = ex_self, OF h1 h2 h3] h1 h2 h3
  show ?thesis by simp
qed

subsection \<open>The last table only\<close>

text \<open>
  Claim C3. When the compound pattern matches at least once, a call with
  \<^verbatim>\<open>last_one_only=True\<close> returns the last table of the list that the same call with
  \<^verbatim>\<open>last_one_only=False\<close> returns, as it is and not inside a list, and stores that
  table under the attribute name when one is given.
\<close>

theorem last_one_only_returns_last_table:
  assumes "fs (filename self) = Some text"
    and "table_matches h r f text \<noteq> []"
    and "fst (read_table_pattern fs h r f pp attribute_name False self) = Inr v"
  shows "\<exists>tables. v = PyList tables \<and> tables \<noteq> [] \<and>
    read_table_pattern fs h r f pp attribute_name True self =
      (Inr (last tables), stored attribute_name (last tables) self)"
proof -
  from read_table_pattern_Inr_valid(2)[OF assms(3)] have v: "valid_patterns h r f" .
  note eq = read_table_pattern_valid[where fs = fs and self = self, OF assms(1) v]
  from assms(3) obtain tables where
    t: "map_err (process_table (row_regex r) pp) (table_matches h r f text) = Inr tables"
    and vt: "v = PyList tables"
    by (auto simp: eq split: sum.splits)
  from t have "length tables = length (table_matches h r f text)"
    by (simp add: map_err_Inr_iff list_all2_lengthD)
  with assms(2) have "tables \<noteq> []" by auto
  with t vt show ?thesis by (simp add: eq)
qed

theorem last_one_only_returns_last_table_witness:
  "[''qc.out'' \<mapsto> ex_three_tables] (filename ex_self) = Some ex_three_tables \<and>
   table_matches ex_header ex_row ex_footer ex_three_tables \<noteq> [] \<and>
   fst (read_table_pattern [''qc.out'' \<mapsto> ex_three_tables] ex_header ex_row ex_footer py_str
       (Some ''SCF'') False ex_self) =
     Inr (PyList
       [PyList [PyList [Leaf ''1'', Leaf ''a''], PyList [Leaf ''2'', Leaf ''b'']],
        PyList [PyList [Leaf ''3'', Leaf ''c'']],
        PyList [PyList [Leaf ''4'', Leaf ''d''], PyList [Leaf ''5'', Leaf ''e''],
                PyList [Leaf ''6'', Leaf ''f'']]]) \<and>
   fst (read_table_pattern [''qc.out'' \<mapsto> ex_three_tables] ex_header ex_row ex_footer py_str
       (Some ''SCF'') True ex_self) =
     Inr (PyList [PyList [Leaf ''4'', Leaf ''d''], PyList [Leaf ''5'', Leaf ''e''],
                  PyList [Leaf ''6'', Leaf ''f'']]) \<and>
   data (snd (read_table_pattern [''qc.out'' \<mapsto> ex_three_tables] ex_header ex_row ex_footer
       py_str (Some ''SCF'') True ex_self)) ''SCF'' =
     Some (PyList [PyList [Leaf ''4'', Leaf ''d''], PyList [Leaf ''5'', Leaf ''e''],
                   PyList [Leaf ''6'', Leaf ''f'']])"
proof -
  let ?fs = "[''qc.out'' \<mapsto> ex_three_tables]"
  let ?v = "PyList
       [PyList [PyList [Leaf ''1'', Leaf ''a''], PyList [Leaf ''2'', Leaf ''b'']],
        PyList [PyList [Leaf ''3'', Leaf ''c'']],
        PyList [PyList [Leaf ''4'', Leaf ''d''], PyList [Leaf ''5'', Leaf ''e''],
                PyList [Leaf ''6'', Leaf ''f'']]]"
  have h1: "?fs (filename ex_self) = Some ex_three_tables"
    by (simp add: ex_self_def)
  have h2: "table_matches ex_header ex_row ex_footer ex_three_tables \<noteq> []" by code_simp
  have h3: "fst (read_table_pattern ?fs ex_header ex_row ex_footer py_str
       (Some ''SCF'') False ex_self) = Inr ?v" by code_simp
  from last_one_only_returns_last_table[where fs = ?fs and self = ex_self, OF h1 h2 h3]
    h1 h2 h3
  show ?thesis by (auto simp: stored_def)
qed

subsection \<open>Failures inside a table\<close>

text \<open>
  Claim C6. If \<^verbatim>\<open>postprocess\<close> raises on a captured substring of some line of some
  table body, the whole call fails: it returns no result, partial or other, and leaves
  the object, and so \<^verbatim>\<open>self.data\<close>, as it was. The error that reaches the caller is
  one that \<^verbatim>\<open>postprocess\<close> raised, unless a failed lookup came first; and when no
  lookup can fail (every match has its body and the row pattern matches every line of
  every body) it is the error that \<^verbatim>\<open>postprocess\<close> raised on the first captured
  substring, in the order of the text, on which it raises.
\<close>

theorem postprocess_error_fails_whole_call:
  assumes "fs (filename self) = Some text" and "valid_patterns h r f"
    and "mt \<in> set (table_matches h r f text)"
    and "group mt ''table_body'' = Inr (Some body)"
    and "line \<in> set (split_nl body)"
    and "search (row_regex r) line = Some ml"
    and "g \<in> set (captured ml)"
    and "pp g = Inl e"
  shows "\<exists>e'. read_table_pattern fs h r f pp attribute_name last_one_only self = (Inl e', self) \<and>
    (e' = IndexError \<or> e' = AttributeError \<or> (\<exists>g'. pp g' = Inl e')) \<and>
    (well_formed_tables h r f text \<longrightarrow>
       first_error pp (all_captured h r f text) = Some e')"
proof -
  from process_line_fails_on_capture[where pp = pp, OF assms(6,7,8)] obtain e1 where
    "process_line (row_regex r) pp line = Inl e1" ..
  from process_table_fails_on_line[OF assms(4,5) this] obtain e2 where
    e2: "process_table (row_regex r) pp mt = Inl e2" ..
  from map_err_fails[where f = "process_table (row_regex r) pp", OF assms(3) e2] obtain e' where
    m: "map_err (process_table (row_regex r) pp) (table_matches h r f text) = Inl e'" ..
  then have r: "read_table_pattern fs h r f pp attribute_name last_one_only self = (Inl e', self)"
    using read_table_pattern_valid[where fs = fs and self = self, OF assms(1,2)] by simp
  have "first_error pp (all_captured h r f text) = Some e'" if "well_formed_tables h r f text"
    using well_formed_first_error[OF that, where pp = pp] m by simp
  with read_table_pattern_error[where fs = fs and self = self, OF assms(1,2) r] r
  show ?thesis by blast
qed

theorem postprocess_error_fails_whole_call_witness:
  "[''qc.out'' \<mapsto> ex_three_tables] (filename ex_self) = Some ex_three_tables \<and>
   valid_patterns ex_header ex_row ex_footer \<and>
   hd (table_matches ex_header ex_row ex_footer ex_three_tables)
     \<in> set (table_matches ex_header ex_row ex_footer ex_three_tables) \<and>
   group (hd (table_matches ex_header ex_row ex_footer ex_three_tables)) ''table_body'' =
     Inr (Some ('' 1 a'' @ [newline] @ '' 2 b'')) \<and>
   '' 1 a'' \<in> set (split_nl ('' 1 a'' @ [newline] @ '' 2 b'')) \<and>
   search (row_regex ex_row) '' 1 a'' = Some (the (search (row_regex ex_row) '' 1 a'')) \<and>
   Some ''a'' \<in> set (captured (the (search (row_regex ex_row) '' 1 a''))) \<and>
   ex_int (Some ''a'') = Inl (Raised ''ValueError'') \<and>
   well_formed_tables ex_header ex_row ex_footer ex_three_tables \<and>
   all_captured ex_header ex_row ex_footer ex_three_tables =
     [Some ''1'', Some ''a'', Some ''2'', Some ''b'', Some ''3'', Some ''c'',
      Some ''4'', Some ''d'', Some ''5'', Some ''e'', Some ''6'', Some ''f''] \<and>
   first_error ex_int (all_captured ex_header ex_row ex_footer ex_three_tables) =
     Some (Raised ''ValueError'') \<and>
   read_table_pattern [''qc.out'' \<mapsto> ex_three_tables] ex_header ex_row ex_footer ex_int
       (Some ''SCF'') False ex_self = (Inl (Raised ''ValueError''), ex_self)"
proof -
  let ?fs = "[''qc.out'' \<mapsto> ex_three_tables]"
  have h1: "?fs (filename ex_self) = Some ex_three_tables" by (simp add: ex_self_def)
  have h2: "valid_patterns ex_header ex_row ex_footer" by code_simp
  have h3: "hd (table_matches ex_header ex_row ex_footer ex_three_tables)
     \<in> set (table_matches ex_header ex_row ex_footer ex_three_tables)" by code_simp
  have h4: "group (hd (table_matches ex_header ex_row ex_footer ex_three_tables)) ''table_body'' =
     Inr (Some ('' 1 a'' @ [newline] @ '' 2 b''))" by code_simp
  have h5: "'' 1 a'' \<in> set (split_nl ('' 1 a'' @ [newline] @ '' 2 b''))" by code_simp
  have h6: "search (row_regex ex_row) '' 1 a'' = Some (the (search (row_regex ex_row) '' 1 a''))"
    by code_simp
  have h7: "Some ''a'' \<in> set (captured (the (search (row_regex ex_row) '' 1 a'')))"
    by code_simp
  have h8: "ex_int (Some ''a'') = Inl (Raised ''ValueError'')" by code_simp
  have h9: "well_formed_tables ex_header ex_row ex_footer ex_three_tables" by code_simp
  have h10: "all_captured ex_header ex_row ex_footer ex_three_tables =
     [Some ''1'', Some ''a'', Some ''2'', Some ''b'', Some ''3'', Some ''c'',
      Some ''4'', Some ''d'', Some ''5'', Some ''e'', Some ''6'', Some ''f'']" by code_simp
  have h11: "first_error ex_int
      [Some ''1'', Some ''a'', Some ''2'', Some ''b'', Some ''3'', Some ''c'',
       Some ''4'', Some ''d'', Some ''5'', Some ''e'', Some ''6'', Some ''f''] =
     Some (Raised ''ValueError'')" by code_simp
  from postprocess_error_fails_whole_call[where fs = ?fs and self = ex_self and pp = ex_int
      and attribute_name = "Some ''SCF''" and last_one_only = False,
      OF h1 h2 h3 h4 h5 h6 h7 h8]
  obtain e' where r: "read_table_pattern ?fs ex_header ex_row ex_footer ex_int
       (Some ''SCF'') False ex_self = (Inl e', ex_self)"
    and fe: "well_formed_tables ex_header ex_row ex_footer ex_three_tables \<longrightarrow>
       first_error ex_int (all_captured ex_header ex_row ex_footer ex_three_tables) = Some e'"
    by blast
  from fe h9 have fe': "first_error ex_int
      (all_captured ex_header ex_row ex_footer ex_three_tables) = Some e'" by simp
  with h10 h11 have e': "e' = Raised ''ValueError''" by simp
  from fe' e' have h12: "first_error ex_int
      (all_captured ex_header ex_row ex_footer ex_three_tables) = Some (Raised ''ValueError'')"
    by simp
  from r e' have h13: "read_table_pattern ?fs ex_header ex_row ex_footer ex_int
       (Some ''SCF'') False ex_self = (Inl (Raised ''ValueError''), ex_self)" by simp
  show ?thesis by (intro conjI h1 h2 h3 h4 h5 h6 h7 h8 h9 h10 h12 h13)
qed

text \<open>
  Claim C2. If a line of a detected table body (the captured body split at the newline
  characters) does not match the row pattern, looking up its groups fails with
  \<^verbatim>\<open>AttributeError\<close> and the whole call fails; the line is not skipped. When nothing
  else can fail (\<^verbatim>\<open>postprocess\<close> never raises and every match has its body) that
  \<^verbatim>\<open>AttributeError\<close> is what the call raises.
\<close>

theorem unmatched_body_line_fails_whole_call:
  assumes "fs (filename self) = Some text" and "valid_patterns h r f"
    and "mt \<in> set (table_matches h r f text)"
    and "group mt ''table_body'' = Inr (Some body)"
    and "line \<in> set (split_nl body)"
    and "search (row_regex r) line = None"
  shows "process_line (row_regex r) pp line = Inl AttributeError \<and>
    (\<exists>e. read_table_pattern fs h r f pp attribute_name last_one_only self = (Inl e, self)) \<and>
    ((\<forall>g. \<not> isl (pp g)) \<and> (\<forall>m \<in> set (table_matches h r f text). \<not> isl (group m ''table_body''))
      \<longrightarrow> read_table_pattern fs h r f pp attribute_name last_one_only self =
        (Inl AttributeError, self))"
proof -
  have pl: "process_line (row_regex r) pp line = Inl AttributeError"
    using assms(6) by (simp add: process_line_def)
  from process_table_fails_on_line[OF assms(4,5) pl] obtain e2 where
    e2: "process_table (row_regex r) pp mt = Inl e2" ..
  from read_table_pattern_fails_on_table[where fs = fs and self = self, OF assms(1,2,3) e2]
  obtain e where
    r: "read_table_pattern fs h r f pp attribute_name last_one_only self = (Inl e, self)" ..
  have "e = AttributeError"
    if tot: "\<forall>g. \<not> isl (pp g)"
      and bodies: "\<forall>m \<in> set (table_matches h r f text). \<not> isl (group m ''table_body'')"
  proof -
    have "\<exists>m \<in> set (table_matches h r f text). process_table (row_regex r) pp m = Inl e"
    proof (cases "map_err (process_table (row_regex r) pp) (table_matches h r f text)")
      case (Inl e')
      with r have "e' = e"
        using read_table_pattern_valid[where fs = fs and self = self, OF assms(1,2)] by simp
      with Inl show ?thesis using map_err_Inl_ex by fast
    next
      case (Inr tables)
      with e2 assms(3) show ?thesis
        using map_err_fails[where f = "process_table (row_regex r) pp", OF assms(3) e2] by simp
    qed
    then obtain m where m: "m \<in> set (table_matches h r f text)"
      and pm: "process_table (row_regex r) pp m = Inl e" by (rule bexE)
    from bodies m obtain b where b: "group m ''table_body'' = Inr b"
      by (cases "group m ''table_body''") auto
    show ?thesis
    proof (cases b)
      case None
      with b pm show ?thesis by (simp add: process_table_def)
    next
      case (Some bd)
      with b pm have "map_err (process_line (row_regex r) pp) (split_nl bd) = Inl e"
        by (simp add: process_table_def split: sum.splits)
      from map_err_Inl_ex[OF this] obtain l where "process_line (row_regex r) pp l = Inl e"
        by auto
      moreover have "\<not> (\<exists>g. pp g = Inl e)" using tot by (metis sum.disc(1))
      ultimately show ?thesis using process_line_error by blast
    qed
  qed
  with pl r show ?thesis by auto
qed

theorem unmatched_body_line_fails_whole_call_witness:
  "[''qc.out'' \<mapsto> ex_blank_line] (filename ex_self) = Some ex_blank_line \<and>
   valid_patterns ex_header ex_row ex_footer \<and>
   hd (table_matches ex_header ex_row ex_footer ex_blank_line)
     \<in> set (table_matches ex_header ex_row ex_footer ex_blank_line) \<and>
   group (hd (table_matches ex_header ex_row ex_footer ex_blank_line)) ''table_body'' =
     Inr (Some ('' 1 a'' @ [newline, newline] @ '' 2 b'')) \<and>
   [] \<in> set (split_nl ('' 1 a'' @ [newline, newline] @ '' 2 b'')) \<and>
   search (row_regex ex_row) [] = None \<and>
   (\<forall>g. \<not> isl (py_str g)) \<and>
   list_all (\<lambda>m. \<not> isl (group m ''table_body''))
     (table_matches ex_header ex_row ex_footer ex_blank_line) \<and>
   read_table_pattern [''qc.out'' \<mapsto> ex_blank_line] ex_header ex_row ex_footer py_str
       (Some ''SCF'') False ex_self = (Inl AttributeError, ex_self)"
proof -
  let ?fs = "[''qc.out'' \<mapsto> ex_blank_line]"
  have h1: "?fs (filename ex_self) = Some ex_blank_line" by (simp add: ex_self_def)
  have h2: "valid_patterns ex_header ex_row ex_footer" by code_simp
  have h3: "hd (table_matches ex_header ex_row ex_footer ex_blank_line)
     \<in> set (table_matches ex_header ex_row ex_footer ex_blank_line)" by code_simp
  have h4: "group (hd (table_matches ex_header ex_row ex_footer ex_blank_line)) ''table_body'' =
     Inr (Some ('' 1 a'' @ [newline, newline] @ '' 2 b''))" by code_simp
  have h5: "[] \<in> set (split_nl ('' 1 a'' @ [newline, newline] @ '' 2 b''))" by code_simp
  have h6: "search (row_regex ex_row) [] = None" by code_simp
  have h7: "\<forall>g. \<not> isl (py_str g)" by (simp add: py_str_def split: option.splits)
  have h8: "list_all (\<lambda>m. \<not> isl (group m ''table_body''))
     (table_matches ex_header ex_row ex_footer ex_blank_line)" by code_simp
  then have h8': "\<forall>m \<in> set (table_matches ex_header ex_row ex_footer ex_blank_line).
      \<not> isl (group m ''table_body'')" by (simp add: list_all_iff)
  from unmatched_body_line_fails_whole_call[where fs = ?fs and self = ex_self and pp = py_str
      and attribute_name = "Some ''SCF''" and last_one_only = False,
      OF h1 h2 h3 h4 h5 h6]
    h1 h2 h3 h4 h5 h6 h7 h8 h8'
  show ?thesis by blast
qed

subsection \<open>Order of tables and rows\<close>

text \<open>
  Claim C1, as amended. With \<^verbatim>\<open>last_one_only=False\<close> the call returns exactly one table
  for each match of the compound pattern, in the order of the matches; the matches
  follow one another from left to right in the text without overlap; a table has exactly
  one row for each line of the body of its match, in the order of the lines; these lines
  hold no newline and, put together again with newlines, are the body; and the body
  stands in the text inside the match. A text with three header/rows/footer blocks so
  gives three tables holding the rows of each block when the compound pattern matches
  each block by itself, as it does for the header \<^verbatim>\<open>H\<close>, the row \<^verbatim>\<open>(\d+)\s(\w+)\<close> and the
  footer \<^verbatim>\<open>F\<close> of the witness.
\<close>

theorem tables_in_text_order:
  assumes "fs (filename self) = Some text"
    and "fst (read_table_pattern fs h r f pp attribute_name False self) = Inr v"
  shows "\<exists>tables. v = PyList tables \<and>
    length tables = length (table_matches h r f text) \<and>
    list_all2 (\<lambda>mt t. process_table (row_regex r) pp mt = Inr t)
      (table_matches h r f text) tables \<and>
    sorted_wrt (\<lambda>a b. m_end a \<le> m_start b) (table_matches h r f text) \<and>
    (\<forall>mt \<in> set (table_matches h r f text). \<forall>t. process_table (row_regex r) pp mt = Inr t \<longrightarrow>
       (\<exists>body rows. group mt ''table_body'' = Inr (Some body) \<and> inside body mt text \<and>
          m_start mt \<le> m_end mt \<and> m_end mt \<le> length text \<and> t = PyList rows \<and>
          length rows = length (split_nl body) \<and>
          join_nl (split_nl body) = body \<and>
          (\<forall>line \<in> set (split_nl body). newline \<notin> set line) \<and>
          list_all2 (\<lambda>line row. process_line (row_regex r) pp line = Inr row)
            (split_nl body) rows))"
proof -
  from read_table_pattern_Inr_valid(2)[OF assms(2)] have v: "valid_patterns h r f" .
  note eq = read_table_pattern_valid[where fs = fs and self = self, OF assms(1) v]
  from assms(2) obtain tables where
    t: "map_err (process_table (row_regex r) pp) (table_matches h r f text) = Inr tables"
    and vt: "v = PyList tables"
    by (auto simp: eq split: sum.splits)
  have a: "list_all2 (\<lambda>mt t. process_table (row_regex r) pp mt = Inr t)
      (table_matches h r f text) tables"
    using t by (simp add: map_err_Inr_iff)
  have l: "length tables = length (table_matches h r f text)"
    using t by (rule map_err_length)
  have b: "sorted_wrt (\<lambda>a b. m_end a \<le> m_start b) (table_matches h r f text)"
    unfolding table_matches_def by (rule finditer_sorted)
  have c: "\<exists>body rows. group mt ''table_body'' = Inr (Some body) \<and> inside body mt text \<and>
          m_start mt \<le> m_end mt \<and> m_end mt \<le> length text \<and> t = PyList rows \<and>
          length rows = length (split_nl body) \<and>
          join_nl (split_nl body) = body \<and>
          (\<forall>line \<in> set (split_nl body). newline \<notin> set line) \<and>
          list_all2 (\<lambda>line row. process_line (row_regex r) pp line = Inr row)
            (split_nl body) rows"
    if mt: "mt \<in> set (table_matches h r f text)"
      and pt: "process_table (row_regex r) pp mt = Inr t" for mt t
  proof -
    from pt obtain body rows where g: "group mt ''table_body'' = Inr (Some body)"
      and m: "map_err (process_line (row_regex r) pp) (split_nl body) = Inr rows"
      and tr: "t = PyList rows"
      by (auto simp: process_table_def split: sum.splits option.splits)
    from mt have mt': "mt \<in> set (finditer (table_regex h r f) text)"
      by (simp add: table_matches_def)
    from group_inside[OF mt' g] have "inside body mt text" .
    moreover from finditer_spans mt' have "m_start mt \<le> m_end mt \<and> m_end mt \<le> length text"
      by blast
    moreover from m have "list_all2 (\<lambda>line row. process_line (row_regex r) pp line = Inr row)
        (split_nl body) rows" by (simp add: map_err_Inr_iff)
    moreover from m have "length rows = length (split_nl body)" by (rule map_err_length)
    moreover have "join_nl (split_nl body) = body" by (rule join_nl_split_nl)
    moreover have "\<forall>line \<in> set (split_nl body). newline \<notin> set line"
      by (rule split_nl_no_newline)
    ultimately show ?thesis using g tr by blast
  qed
  from vt l a b c show ?thesis by blast
qed

theorem tables_in_text_order_witness:
  "[''qc.out'' \<mapsto> ex_three_tables] (filename ex_self) = Some ex_three_tables \<and>
   fst (read_table_pattern [''qc.out'' \<mapsto> ex_three_tables] ex_header ex_row ex_footer py_str
       None False ex_self) =
     Inr (PyList
       [PyList [PyList [Leaf ''1'', Leaf ''a''], PyList [Leaf ''2'', Leaf ''b'']],
        PyList [PyList [Leaf ''3'', Leaf ''c'']],
        PyList [PyList [Leaf ''4'', Leaf ''d''], PyList [Leaf ''5'', Leaf ''e''],
                PyList [Leaf ''6'', Leaf ''f'']]]) \<and>
   ex_three_tables = ''junk'' @ [newline] @ ex_block1 @ ''mid'' @ [newline] @ ex_block2 @ ex_block3 \<and>
   map (\<lambda>m. (m_start m, m_end m)) (table_matches ex_header ex_row ex_footer ex_three_tables) =
     [(5, 18), (23, 31), (32, 50)] \<and>
   map (\<lambda>m. group m ''table_body'') (table_matches ex_header ex_row ex_footer ex_three_tables) =
     [Inr (Some ('' 1 a'' @ [newline] @ '' 2 b'')), Inr (Some '' 3 c''),
      Inr (Some ('' 4 d'' @ [newline] @ '' 5 e'' @ [newline] @ '' 6 f''))] \<and>
   (\<exists>tables.
      PyList
       [PyList [PyList [Leaf ''1'', Leaf ''a''], PyList [Leaf ''2'', Leaf ''b'']],
        PyList [PyList [Leaf ''3'', Leaf ''c'']],
        PyList [PyList [Leaf ''4'', Leaf ''d''], PyList [Leaf ''5'', Leaf ''e''],
                PyList [Leaf ''6'', Leaf ''f'']]] = PyList tables \<and>
      length tables = length (table_matches ex_header ex_row ex_footer ex_three_tables) \<and>
      list_all2 (\<lambda>mt t. process_table (row_regex ex_row) py_str mt = Inr t)
        (table_matches ex_header ex_row ex_footer ex_three_tables) tables \<and>
      sorted_wrt (\<lambda>a b. m_end a \<le> m_start b)
        (table_matches ex_header ex_row ex_footer ex_three_tables) \<and>
      (\<forall>mt \<in> set (table_matches ex_header ex_row ex_footer ex_three_tables).
         \<forall>t. process_table (row_regex ex_row) py_str mt = Inr t \<longrightarrow>
         (\<exists>body rows. group mt ''table_body'' = Inr (Some body) \<and>
            inside body mt ex_three_tables \<and>
            m_start mt \<le> m_end mt \<and> m_end mt \<le> length ex_three_tables \<and> t = PyList rows \<and>
            length rows = length (split_nl body) \<and>
            join_nl (split_nl body) = body \<and>
            (\<forall>line \<in> set (split_nl body). newline \<notin> set line) \<and>
            list_all2 (\<lambda>line row. process_line (row_regex ex_row) py_str line = Inr row)
              (split_nl body) rows)))"
proof -
  let ?fs = "[''qc.out'' \<mapsto> ex_three_tables]"
  have h1: "?fs (filename ex_self) = Some ex_three_tables" by (simp add: ex_self_def)
  have h2: "fst (read_table_pattern ?fs ex_header ex_row ex_footer py_str None False ex_self) =
     Inr (PyList
       [PyList [PyList [Leaf ''1'', Leaf ''a''], PyList [Leaf ''2'', Leaf ''b'']],
        PyList [PyList [Leaf ''3'', Leaf ''c'']],
        PyList [PyList [Leaf ''4'', Leaf ''d''], PyList [Leaf ''5'', Leaf ''e''],
                PyList [Leaf ''6'', Leaf ''f'']]])" by code_simp
  have h0: "ex_three_tables =
      ''junk'' @ [newline] @ ex_block1 @ ''mid'' @ [newline] @ ex_block2 @ ex_block3"
    by code_simp
  have h3: "map (\<lambda>m. (m_start m, m_end m))
      (table_matches ex_header ex_row ex_footer ex_three_tables) =
     [(5, 18), (23, 31), (32, 50)]" by code_simp
  have h4: "map (\<lambda>m. group m ''table_body'')
      (table_matches ex_header ex_row ex_footer ex_three_tables) =
     [Inr (Some ('' 1 a'' @ [newline] @ '' 2 b'')), Inr (Some '' 3 c''),
      Inr (Some ('' 4 d'' @ [newline] @ '' 5 e'' @ [newline] @ '' 6 f''))]" by code_simp
  note c = tables_in_text_order[where fs = ?fs and self = ex_self, OF h1 h2]
  show ?thesis by (intro conjI h1 h2 h0 h3 h4 c)
qed

text \<open>
  The claim as it was stated fails on the source: three blocks need not give three
  tables. Nothing keeps a match of the compound pattern inside one block. With the row
  pattern \<^verbatim>\<open>(\w+)\<close>, which also matches the lines \<^verbatim>\<open>H\<close>, \<^verbatim>\<open>F\<close> and \<^verbatim>\<open>mid\<close>, each of the
  three blocks read by itself gives one table of its rows, but the text of the three
  blocks gives a single table of eleven rows, from the first header to the last footer,
  among them the footers, the headers and the line between the blocks.
\<close>

theorem three_blocks_counterexample:
  "ex_three_tables = ''junk'' @ [newline] @ ex_block1 @ ''mid'' @ [newline] @ ex_block2 @ ex_block3 \<and>
   map (\<lambda>block. fst (read_table_pattern [''qc.out'' \<mapsto> block] ex_header ex_word_row ex_footer
       py_str None False ex_self)) [ex_block1, ex_block2, ex_block3] =
     [Inr (PyList [PyList [PyList [Leaf ''1''], PyList [Leaf ''2'']]]),
      Inr (PyList [PyList [PyList [Leaf ''3'']]]),
      Inr (PyList [PyList [PyList [Leaf ''4''], PyList [Leaf ''5''], PyList [Leaf ''6'']]])] \<and>
   fst (read_table_pattern [''qc.out'' \<mapsto> ex_three_tables] ex_header ex_word_row ex_footer
       py_str None False ex_self) =
     Inr (PyList
       [PyList [PyList [Leaf ''1''], PyList [Leaf ''2''], PyList [Leaf ''F''],
                PyList [Leaf ''mid''], PyList [Leaf ''H''], PyList [Leaf ''3''],
                PyList [Leaf ''F''], PyList [Leaf ''H''], PyList [Leaf ''4''],
                PyList [Leaf ''5''], PyList [Leaf ''6'']]]) \<and>
   fst (read_table_pattern [''qc.out'' \<mapsto> ex_three_tables] ex_header ex_word_row ex_footer
       py_str None False ex_self) \<noteq>
     Inr (PyList
       [PyList [PyList [Leaf ''1''], PyList [Leaf ''2'']],
        PyList [PyList [Leaf ''3'']],
        PyList [PyList [Leaf ''4''], PyList [Leaf ''5''], PyList [Leaf ''6'']]]) \<and>
   map (\<lambda>m. (m_start m, m_end m))
       (table_matches ex_header ex_word_row ex_footer ex_three_tables) = [(5, 50)]"
  by code_simp

subsection \<open>Shape of the row records\<close>

text \<open>
  Claim C5. All row records of one call have one shape, fixed by the row pattern alone:
  if the pattern has named groups, every record is a dictionary from the group names to
  postprocessed values; otherwise every record is a list of one postprocessed value for
  each group. The two shapes never occur together in a result.
\<close>

theorem rows_have_one_shape:
  assumes "fst (read_table_pattern fs h r f pp attribute_name last_one_only self) = Inr v"
  shows "(row_names r \<noteq> [] \<and>
      (if last_one_only then list_of (named_row (row_names r)) v
       else list_of (list_of (named_row (row_names r))) v)) \<or>
    (row_names r = [] \<and>
      (if last_one_only then list_of (positional_row (row_ngroups r)) v
       else list_of (list_of (positional_row (row_ngroups r))) v))"
  using read_table_pattern_shape[OF assms]
  by (cases last_one_only; cases "row_names r = []") (simp_all add: row_record_alt)

theorem rows_have_one_shape_witness:
  "fst (read_table_pattern [''qc.out'' \<mapsto> ex_three_tables] ex_header ex_named_row ex_footer
       py_str None False ex_self) =
     Inr (PyList
       [PyList [PyDict [(''n'', Leaf ''1''), (''w'', Leaf ''a'')],
                PyDict [(''n'', Leaf ''2''), (''w'', Leaf ''b'')]],
        PyList [PyDict [(''n'', Leaf ''3''), (''w'', Leaf ''c'')]],
        PyList [PyDict [(''n'', Leaf ''4''), (''w'', Leaf ''d'')],
                PyDict [(''n'', Leaf ''5''), (''w'', Leaf ''e'')],
                PyDict [(''n'', Leaf ''6''), (''w'', Leaf ''f'')]]]) \<and>
   row_names ex_named_row = [''n'', ''w''] \<and>
   list_of (list_of (named_row (row_names ex_named_row)))
     (PyList
       [PyList [PyDict [(''n'', Leaf ''1''), (''w'', Leaf ''a'')],
                PyDict [(''n'', Leaf ''2''), (''w'', Leaf ''b'')]],
        PyList [PyDict [(''n'', Leaf ''3''), (''w'', Leaf ''c'')]],
        PyList [PyDict [(''n'', Leaf ''4''), (''w'', Leaf ''d'')],
                PyDict [(''n'', Leaf ''5''), (''w'', Leaf ''e'')],
                PyDict [(''n'', Leaf ''6''), (''w'', Leaf ''f'')]]] :: string pyval)"
proof -
  let ?fs = "[''qc.out'' \<mapsto> ex_three_tables]"
  have h1: "fst (read_table_pattern ?fs ex_header ex_named_row ex_footer py_str None False
      ex_self) =
     Inr (PyList
       [PyList [PyDict [(''n'', Leaf ''1''), (''w'', Leaf ''a'')],
                PyDict [(''n'', Leaf ''2''), (''w'', Leaf ''b'')]],
        PyList [PyDict [(''n'', Leaf ''3''), (''w'', Leaf ''c'')]],
        PyList [PyDict [(''n'', Leaf ''4''), (''w'', Leaf ''d'')],
                PyDict [(''n'', Leaf ''5''), (''w'', Leaf ''e'')],
                PyDict [(''n'', Leaf ''6''), (''w'', Leaf ''f'')]]])" by code_simp
  have h2: "row_names ex_named_row = [''n'', ''w'']" by code_simp
  from rows_have_one_shape[OF h1] h2 have "list_of (list_of (named_row (row_names ex_named_row)))
     (PyList
       [PyList [PyDict [(''n'', Leaf ''1''), (''w'', Leaf ''a'')],
                PyDict [(''n'', Leaf ''2''), (''w'', Leaf ''b'')]],
        PyList [PyDict [(''n'', Leaf ''3''), (''w'', Leaf ''c'')]],
        PyList [PyDict [(''n'', Leaf ''4''), (''w'', Leaf ''d'')],
                PyDict [(''n'', Leaf ''5''), (''w'', Leaf ''e'')],
                PyDict [(''n'', Leaf ''6''), (''w'', Leaf ''f'')]]] :: string pyval)"
    by simp
  with h1 h2 show ?thesis by (intro conjI)
qed

subsection \<open>Scalar fields\<close>

text \<open>
  Claim C4. After a call of \<^verbatim>\<open>read_pattern\<close> that returns, \<^verbatim>\<open>self.data\<close> has an entry for
  every key of \<^verbatim>\<open>patterns\<close>, and a key none of whose patterns matches a line maps to the
  empty list. Such a field is no cause of an error: the call returns whenever the file
  can be read, the patterns compile and \<^verbatim>\<open>postprocess\<close> raises on no match.
\<close>

theorem read_pattern_every_key:
  assumes "fs (filename self) = Some text"
  shows "(\<forall>self'. read_pattern fs patterns reverse terminate_on_match pp self = (Inr (), self') \<longrightarrow>
      fst ` set patterns \<subseteq> dom (data self') \<and>
      (\<forall>k \<in> fst ` set patterns. no_match patterns k (scanned_lines reverse text) \<longrightarrow>
         data self' k = Some (PyList []))) \<and>
    (\<not> isl (compile_all patterns) \<and> postprocess_ok patterns pp (scanned_lines reverse text) \<longrightarrow>
      (\<exists>self'. read_pattern fs patterns reverse terminate_on_match pp self = (Inr (), self')))"
proof (intro conjI allI impI)
  fix self'
  assume r: "read_pattern fs patterns reverse terminate_on_match pp self = (Inr (), self')"
  from read_pattern_Inr[OF r] assms obtain cps ms where
    c: "compile_all patterns = Inr cps"
    and s: "scan_lines cps pp reverse terminate_on_match (scanned_lines reverse text) 0 Map.empty
      = Inr ms"
    and self': "self' = fold (store_matches ms) (map fst patterns) self"
    by auto
  show "fst ` set patterns \<subseteq> dom (data self')"
  proof
    fix k
    assume "k \<in> fst ` set patterns"
    then have "k \<in> set (map fst patterns)" by simp
    then show "k \<in> dom (data self')" by (simp add: self' fold_store_matches domIff)
  qed
  show "\<forall>k \<in> fst ` set patterns. no_match patterns k (scanned_lines reverse text) \<longrightarrow>
         data self' k = Some (PyList [])"
  proof (intro ballI impI)
    fix k
    assume k: "k \<in> fst ` set patterns"
      and nm: "no_match patterns k (scanned_lines reverse text)"
    have "\<forall>l \<in> set (scanned_lines reverse text). \<forall>kp \<in> set cps.
        fst kp = k \<longrightarrow> search (snd kp) l = None"
    proof (intro ballI impI)
      fix l kp
      assume l: "l \<in> set (scanned_lines reverse text)" and kp: "kp \<in> set cps" "fst kp = k"
      from kp have "(k, snd kp) \<in> set cps" by (cases kp) auto
      from compile_all_member[OF c this] obtain v where
        v: "(k, v) \<in> set patterns" "snd kp = compiled v" by blast
      from nm l v(1) have "\<not> matches_line v l"
        by (auto simp: no_match_def list_all_iff)
      with v(2) show "search (snd kp) l = None" by (simp add: matches_line_def)
    qed
    from scan_lines_unmatched[OF s this] have "ms k = None" by simp
    then have "matches_get ms k = []" by (simp add: matches_get_def)
    moreover from k have "k \<in> set (map fst patterns)" by simp
    ultimately show "data self' k = Some (PyList [])"
      by (simp add: self' fold_store_matches)
  qed
next
  assume a: "\<not> isl (compile_all patterns) \<and>
    postprocess_ok patterns pp (scanned_lines reverse text)"
  then obtain cps where c: "compile_all patterns = Inr cps"
    by (cases "compile_all patterns") auto
  have "\<forall>l \<in> set (scanned_lines reverse text). \<forall>kp \<in> set cps.
      case search (snd kp) l of None \<Rightarrow> True | Some m \<Rightarrow> \<not> isl (map_err pp (groups m))"
  proof (intro ballI)
    fix l kp
    assume l: "l \<in> set (scanned_lines reverse text)" and kp: "kp \<in> set cps"
    then have "(fst kp, snd kp) \<in> set cps" by simp
    from compile_all_member[OF c this] obtain v where
      v: "(fst kp, v) \<in> set patterns" "snd kp = compiled v" by blast
    from a l v(1) have "case search (compiled v) l of
        None \<Rightarrow> True | Some m \<Rightarrow> \<not> isl (map_err pp (groups m))"
      by (auto simp: postprocess_ok_def list_all_iff)
    with v(2) show "case search (snd kp) l of
        None \<Rightarrow> True | Some m \<Rightarrow> \<not> isl (map_err pp (groups m))" by simp
  qed
  from scan_lines_succeeds[OF this] obtain ms where
    "scan_lines cps pp reverse terminate_on_match (scanned_lines reverse text) 0 Map.empty
      = Inr ms" by blast
  with c assms show "\<exists>self'. read_pattern fs patterns reverse terminate_on_match pp self
      = (Inr (), self')"
    by (simp add: read_pattern_def regrep_def scanned_lines_def)
qed

theorem read_pattern_every_key_witness:
  "[''qc.out'' \<mapsto> ex_energy_only] (filename ex_self) = Some ex_energy_only \<and>
   fst (read_pattern [''qc.out'' \<mapsto> ex_energy_only] ex_two_fields False False py_str ex_self)
     = Inr () \<and>
   no_match ex_two_fields ''S2'' (scanned_lines False ex_energy_only) \<and>
   \<not> isl (compile_all ex_two_fields) \<and>
   postprocess_ok ex_two_fields py_str (scanned_lines False ex_energy_only) \<and>
   data (snd (read_pattern [''qc.out'' \<mapsto> ex_energy_only] ex_two_fields False False py_str
     ex_self)) ''S2'' = Some (PyList []) \<and>
   data (snd (read_pattern [''qc.out'' \<mapsto> ex_energy_only] ex_two_fields False False py_str
     ex_self)) ''final_energy'' = Some (PyList [PyList [Leaf ''-76.12345'']]) \<and>
   {''final_energy'', ''S2''} \<subseteq> dom (data (snd (read_pattern [''qc.out'' \<mapsto> ex_energy_only]
     ex_two_fields False False py_str ex_self)))"
proof -
  let ?fs = "[''qc.out'' \<mapsto> ex_energy_only]"
  let ?r = "read_pattern ?fs ex_two_fields False False py_str ex_self"
  have h1: "?fs (filename ex_self) = Some ex_energy_only" by (simp add: ex_self_def)
  have h2: "fst ?r = Inr ()" by code_simp
  have h3: "no_match ex_two_fields ''S2'' (scanned_lines False ex_energy_only)" by code_simp
  have h4: "\<not> isl (compile_all ex_two_fields)" by code_simp
  have h5: "postprocess_ok ex_two_fields py_str (scanned_lines False ex_energy_only)"
    by code_simp
  have h6: "data (snd ?r) ''final_energy'' = Some (PyList [PyList [Leaf ''-76.12345'']])"
    by code_simp
  have keys: "fst ` set ex_two_fields = {''final_energy'', ''S2''}"
    by (simp add: ex_two_fields_def)
  from h2 have r: "?r = (Inr (), snd ?r)" by (cases ?r) simp
  note t = read_pattern_every_key[where fs = ?fs and self = ex_self and patterns = ex_two_fields
      and reverse = False and terminate_on_match = False and pp = py_str, OF h1]
  note b = t[THEN conjunct1, THEN spec, THEN mp, OF r]
  have k2: "''S2'' \<in> fst ` set ex_two_fields" by (simp add: keys)
  from b[THEN conjunct2, THEN bspec, THEN mp, OF k2 h3]
  have e: "data (snd ?r) ''S2'' = Some (PyList [])" .
  from b[THEN conjunct1] have sub': "{''final_energy'', ''S2''} \<subseteq> dom (data (snd ?r))"
    by (simp only: keys)
  show ?thesis by (intro conjI h1 h2 h3 h4 h5 e h6 sub')
qed

text \<open>
  Claim C8, as amended. A call of \<^verbatim>\<open>read_pattern\<close> that returns stores under each key one
  value for each scanned line that its pattern matches, in scan order: the list of all
  the postprocessed groups of the match, none left out. All lines are scanned unless
  \<^verbatim>\<open>terminate_on_match\<close> is set. The line \<^verbatim>\<open>Final energy is -76.12345\<close> read with
  the \<^verbatim>\<open>final_energy\<close> pattern gives \<^verbatim>\<open>{"final_energy": [["-76.12345"]]}\<close>.
\<close>

theorem read_pattern_stores_group_lists:
  assumes "fs (filename self) = Some text" and "distinct (map fst patterns)"
    and "(k, v) \<in> set patterns"
    and "read_pattern fs patterns reverse terminate_on_match pp self = (Inr (), self')"
  shows "\<exists>n \<le> length (scanned_lines reverse text).
    (\<not> terminate_on_match \<longrightarrow> n = length (scanned_lines reverse text)) \<and>
    data self' k = Some (PyList (map (\<lambda>gs. PyList (map Leaf gs))
      (concat (map (line_entries (compiled v) pp) (take n (scanned_lines reverse text))))))"
proof -
  from read_pattern_Inr[OF assms(4)] assms(1) obtain cps ms where
    c: "compile_all patterns = Inr cps"
    and s: "scan_lines cps pp reverse terminate_on_match (scanned_lines reverse text) 0 Map.empty
      = Inr ms"
    and self': "self' = fold (store_matches ms) (map fst patterns) self"
    by auto
  from compile_all_keys[OF c] assms(2) have d: "distinct (map fst cps)" by simp
  from compile_all_member'[OF c assms(3)] have m: "(k, compiled v) \<in> set cps" .
  from scan_lines_key[OF d m s] obtain n where n: "n \<le> length (scanned_lines reverse text)"
    "\<not> terminate_on_match \<longrightarrow> n = length (scanned_lines reverse text)"
    "map fst (matches_get ms k) =
      concat (map (line_entries (compiled v) pp) (take n (scanned_lines reverse text)))"
    by (auto simp: matches_get_def)
  from assms(3) have "k \<in> set (map fst patterns)" by force
  then have "data self' k = Some (PyList (map (\<lambda>i. PyList (map Leaf (fst i))) (matches_get ms k)))"
    by (simp add: self' fold_store_matches)
  also have "map (\<lambda>i. PyList (map Leaf (fst i))) (matches_get ms k) =
      map (\<lambda>gs. PyList (map Leaf gs)) (map fst (matches_get ms k))"
    by (simp add: comp_def)
  finally show ?thesis using n by auto
qed

theorem read_pattern_stores_group_lists_witness:
  "[''qc.out'' \<mapsto> ex_energy_line] (filename ex_self) = Some ex_energy_line \<and>
   distinct (map fst final_energy_patterns) \<and>
   (''final_energy'', raw ''Final/senergy/sis/s+([/d/-/.]+)'') \<in> set final_energy_patterns \<and>
   fst (read_pattern [''qc.out'' \<mapsto> ex_energy_line] final_energy_patterns False False py_str
     ex_self) = Inr () \<and>
   concat (map (line_entries (compiled (raw ''Final/senergy/sis/s+([/d/-/.]+)'')) py_str)
     (scanned_lines False ex_energy_line)) = [[''-76.12345'']] \<and>
   data (snd (read_pattern [''qc.out'' \<mapsto> ex_energy_line] final_energy_patterns False False
     py_str ex_self)) ''final_energy'' = Some (PyList [PyList [Leaf ''-76.12345'']])"
proof -
  let ?fs = "[''qc.out'' \<mapsto> ex_energy_line]"
  let ?r = "read_pattern ?fs final_energy_patterns False False py_str ex_self"
  let ?v = "raw ''Final/senergy/sis/s+([/d/-/.]+)''"
  have h1: "?fs (filename ex_self) = Some ex_energy_line" by (simp add: ex_self_def)
  have h2: "distinct (map fst final_energy_patterns)" by (simp add: final_energy_patterns_def)
  have h3: "(''final_energy'', ?v) \<in> set final_energy_patterns"
    by (simp add: final_energy_patterns_def)
  have h4: "fst ?r = Inr ()" by code_simp
  then have r: "?r = (Inr (), snd ?r)" by (cases ?r) simp
  have h5: "concat (map (line_entries (compiled ?v) py_str) (scanned_lines False ex_energy_line))
      = [[''-76.12345'']]" by code_simp
  from read_pattern_stores_group_lists[where fs = ?fs and self = ex_self, OF h1 h2 h3 r]
  obtain n where "n = length (scanned_lines False ex_energy_line)"
    "data (snd ?r) ''final_energy'' = Some (PyList (map (\<lambda>gs. PyList (map Leaf gs))
      (concat (map (line_entries (compiled ?v) py_str)
        (take n (scanned_lines False ex_energy_line))))))" by auto
  with h5 have h6: "data (snd ?r) ''final_energy'' = Some (PyList [PyList [Leaf ''-76.12345'']])"
    by simp
  show ?thesis by (intro conjI h1 h2 h3 h4 h5 h6)
qed

text \<open>
  The claim as it was stated fails on the source: \<^verbatim>\<open>i[0]\<close> is the list of the groups of a
  match, not its first group. The scenario of the claim does not give
  \<^verbatim>\<open>{"final_energy": ["-76.12345"]}\<close>, and with a pattern of two groups both are stored.
\<close>

theorem first_group_only_counterexample:
  "data (snd (read_pattern [''qc.out'' \<mapsto> ex_energy_line] final_energy_patterns False False
     py_str ex_self)) ''final_energy'' \<noteq> Some (PyList [Leaf ''-76.12345'']) \<and>
   data (snd (read_pattern [''qc.out'' \<mapsto> ex_energy_line] final_energy_patterns False False
     py_str ex_self)) ''final_energy'' = Some (PyList [PyList [Leaf ''-76.12345'']]) \<and>
   data (snd (read_pattern [''qc.out'' \<mapsto> ex_version_line] ex_version_patterns False False
     py_str ex_self)) ''version'' = Some (PyList [PyList [Leaf ''5'', Leaf ''1'']])"
  by code_simp

subsection \<open>The constructor\<close>

text \<open>
  Claim C7. The calls that \<^verbatim>\<open>QCCalc(filename)\<close> makes on a readable file are, in this
  order: the probe for an unrestricted calculation, the probe for \<^verbatim>\<open>GEN_SCFMAN\<close>, the
  table extraction of \<^verbatim>\<open>_read_GEN_SCFMAN\<close> if a line of the text matches the
  \<^verbatim>\<open>GEN_SCFMAN\<close> marker and that of \<^verbatim>\<open>_read_SCF\<close> otherwise, the table extraction of
  \<^verbatim>\<open>_read_unrestricted_mulliken\<close> if a line matches the marker of an unrestricted
  calculation and that of \<^verbatim>\<open>_read_restricted_mulliken\<close> otherwise, the read of
  \<^verbatim>\<open>final_energy\<close>, and the read of \<^verbatim>\<open>S2\<close> if a line matches the marker of an
  unrestricted calculation. The two probes come first and the extraction that they do
  not select is not made. Only a table extraction can interrupt the construction: it
  then raises what the extraction raises, and no later call is made. A construction
  that returns has made all these calls and no other, and \<^verbatim>\<open>self.data\<close> holds under each
  key what the call for it gives on the file, and no other key.
\<close>

theorem init_selects_readers:
  assumes "fs fname = Some text"
  shows "journal fs fname =
      take (if isl (table_result fs fname (SCF_choice text)) then 3
            else if isl (table_result fs fname (mulliken_choice text)) then 4
            else length (expected_calls text))
        (expected_calls text) \<and>
    (\<forall>e. init fs fname = Inl e \<longleftrightarrow>
       table_result fs fname (SCF_choice text) = Inl e \<or>
       (\<not> isl (table_result fs fname (SCF_choice text)) \<and>
        table_result fs fname (mulliken_choice text) = Inl e)) \<and>
    (\<forall>self'. init fs fname = Inr self' \<longrightarrow>
       journal fs fname = expected_calls text \<and>
       (Read_table_pattern GEN_SCFMAN_call \<in> set (journal fs fname) \<longleftrightarrow>
          probe using_GEN_SCFMAN_patterns text) \<and>
       (Read_table_pattern SCF_call \<in> set (journal fs fname) \<longleftrightarrow>
          \<not> probe using_GEN_SCFMAN_patterns text) \<and>
       (Read_table_pattern unrestricted_mulliken_call \<in> set (journal fs fname) \<longleftrightarrow>
          probe unrestricted_patterns text) \<and>
       (Read_table_pattern restricted_mulliken_call \<in> set (journal fs fname) \<longleftrightarrow>
          \<not> probe unrestricted_patterns text) \<and>
       (Read_pattern S2_patterns False False \<in> set (journal fs fname) \<longleftrightarrow>
          probe unrestricted_patterns text) \<and>
       Read_pattern final_energy_patterns False False \<in> set (journal fs fname) \<and>
       dom (data self') =
         {''unrestricted'', ''using_GEN_SCFMAN'', ''final_energy''} \<union>
         (if probe using_GEN_SCFMAN_patterns text then {''GEN_SCFMAN''} else {''SCF''}) \<union>
         (if probe unrestricted_patterns text then {''unrestricted_Mulliken'', ''S2''}
          else {''restricted_Mulliken''}) \<and>
       data self' ''unrestricted'' =
         data (snd (read_pattern fs unrestricted_patterns False True py_str (fresh fname)))
           ''unrestricted'' \<and>
       data self' ''using_GEN_SCFMAN'' =
         data (snd (read_pattern fs using_GEN_SCFMAN_patterns False True py_str (fresh fname)))
           ''using_GEN_SCFMAN'' \<and>
       data self' ''GEN_SCFMAN'' =
         (if probe using_GEN_SCFMAN_patterns text
          then value_of (table_result fs fname GEN_SCFMAN_call) else None) \<and>
       data self' ''SCF'' =
         (if probe using_GEN_SCFMAN_patterns text then None
          else value_of (table_result fs fname SCF_call)) \<and>
       data self' ''unrestricted_Mulliken'' =
         (if probe unrestricted_patterns text
          then value_of (table_result fs fname unrestricted_mulliken_call) else None) \<and>
       data self' ''restricted_Mulliken'' =
         (if probe unrestricted_patterns text then None
          else value_of (table_result fs fname restricted_mulliken_call)) \<and>
       data self' ''final_energy'' =
         data (snd (read_pattern fs final_energy_patterns False False py_str (fresh fname)))
           ''final_energy'' \<and>
       data self' ''S2'' =
         (if probe unrestricted_patterns text
          then data (snd (read_pattern fs S2_patterns False False py_str (fresh fname))) ''S2''
          else None))"
proof -
  let ?gen = "probe using_GEN_SCFMAN_patterns text"
  let ?unr = "probe unrestricted_patterns text"
  let ?scf = "table_result fs fname (SCF_choice text)"
  let ?mul = "table_result fs fname (mulliken_choice text)"
  from assms show ?thesis
  proof (cases rule: init_run_cases)
    case (SCF_raises e s)
    then show ?thesis by (simp add: journal_def init_def)
  next
    case (mulliken_raises v3 e s)
    then show ?thesis by (simp add: journal_def init_def)
  next
    case (returns v3 v4 x1 x2 y5 y6 s)
    note m = expected_calls_members[of "text"]
    have j: "journal fs fname = expected_calls text"
      using returns(3) by (simp add: journal_def)
    have i: "init fs fname = Inr s" using returns(3) by (simp add: init_def)
    have c1: "journal fs fname =
      take (if isl ?scf then 3 else if isl ?mul then 4 else length (expected_calls text))
        (expected_calls text)"
      using returns(1,2) j by simp
    have c2: "\<forall>e. init fs fname = Inl e \<longleftrightarrow> ?scf = Inl e \<or> (\<not> isl ?scf \<and> ?mul = Inl e)"
      using returns(1,2) i by simp
    have scf: "value_of (table_result fs fname GEN_SCFMAN_call) = Some v3" if ?gen
      using returns(1) that by (simp add: SCF_choice_def value_of_def)
    have scf': "value_of (table_result fs fname SCF_call) = Some v3" if "\<not> ?gen"
      using returns(1) that by (simp add: SCF_choice_def value_of_def)
    have mul: "value_of (table_result fs fname unrestricted_mulliken_call) = Some v4" if ?unr
      using returns(2) that by (simp add: mulliken_choice_def value_of_def)
    have mul': "value_of (table_result fs fname restricted_mulliken_call) = Some v4"
      if "\<not> ?unr"
      using returns(2) that by (simp add: mulliken_choice_def value_of_def)
    have d1: "dom (data s) =
         {''unrestricted'', ''using_GEN_SCFMAN'', ''final_energy''} \<union>
         (if ?gen then {''GEN_SCFMAN''} else {''SCF''}) \<union>
         (if ?unr then {''unrestricted_Mulliken'', ''S2''} else {''restricted_Mulliken''})"
      by (cases ?gen; cases ?unr) (auto simp: returns(4))
    have d2: "data s ''unrestricted'' =
         data (snd (read_pattern fs unrestricted_patterns False True py_str (fresh fname)))
           ''unrestricted''"
      by (cases ?gen; cases ?unr) (simp_all add: returns(4,5))
    have d3: "data s ''using_GEN_SCFMAN'' =
         data (snd (read_pattern fs using_GEN_SCFMAN_patterns False True py_str (fresh fname)))
           ''using_GEN_SCFMAN''"
      by (cases ?gen; cases ?unr) (simp_all add: returns(4,6))
    have d4: "data s ''GEN_SCFMAN'' =
         (if ?gen then value_of (table_result fs fname GEN_SCFMAN_call) else None)"
      using scf by (cases ?gen; cases ?unr) (simp_all add: returns(4))
    have d5: "data s ''SCF'' =
         (if ?gen then None else value_of (table_result fs fname SCF_call))"
      using scf' by (cases ?gen; cases ?unr) (simp_all add: returns(4))
    have d6: "data s ''unrestricted_Mulliken'' =
         (if ?unr then value_of (table_result fs fname unrestricted_mulliken_call) else None)"
      using mul by (cases ?gen; cases ?unr) (simp_all add: returns(4))
    have d7: "data s ''restricted_Mulliken'' =
         (if ?unr then None else value_of (table_result fs fname restricted_mulliken_call))"
      using mul' by (cases ?gen; cases ?unr) (simp_all add: returns(4))
    have d8: "data s ''final_energy'' =
         data (snd (read_pattern fs final_energy_patterns False False py_str (fresh fname)))
           ''final_energy''"
      by (cases ?gen; cases ?unr) (simp_all add: returns(4,7))
    have d9: "data s ''S2'' =
         (if ?unr
          then data (snd (read_pattern fs S2_patterns False False py_str (fresh fname))) ''S2''
          else None)"
      using returns(8) by (cases ?gen; cases ?unr) (simp_all add: returns(4))
    have c3: "\<forall>self'. init fs fname = Inr self' \<longrightarrow>
       journal fs fname = expected_calls text \<and>
       (Read_table_pattern GEN_SCFMAN_call \<in> set (journal fs fname) \<longleftrightarrow> ?gen) \<and>
       (Read_table_pattern SCF_call \<in> set (journal fs fname) \<longleftrightarrow> \<not> ?gen) \<and>
       (Read_table_pattern unrestricted_mulliken_call \<in> set (journal fs fname) \<longleftrightarrow> ?unr) \<and>
       (Read_table_pattern restricted_mulliken_call \<in> set (journal fs fname) \<longleftrightarrow> \<not> ?unr) \<and>
       (Read_pattern S2_patterns False False \<in> set (journal fs fname) \<longleftrightarrow> ?unr) \<and>
       Read_pattern final_energy_patterns False False \<in> set (journal fs fname) \<and>
       dom (data self') =
         {''unrestricted'', ''using_GEN_SCFMAN'', ''final_energy''} \<union>
         (if ?gen then {''GEN_SCFMAN''} else {''SCF''}) \<union>
         (if ?unr then {''unrestricted_Mulliken'', ''S2''} else {''restricted_Mulliken''}) \<and>
       data self' ''unrestricted'' =
         data (snd (read_pattern fs unrestricted_patterns False True py_str (fresh fname)))
           ''unrestricted'' \<and>
       data self' ''using_GEN_SCFMAN'' =
         data (snd (read_pattern fs using_GEN_SCFMAN_patterns False True py_str (fresh fname)))
           ''using_GEN_SCFMAN'' \<and>
       data self' ''GEN_SCFMAN'' =
         (if ?gen then value_of (table_result fs fname GEN_SCFMAN_call) else None) \<and>
       data self' ''SCF'' =
         (if ?gen then None else value_of (table_result fs fname SCF_call)) \<and>
       data self' ''unrestricted_Mulliken'' =
         (if ?unr then value_of (table_result fs fname unrestricted_mulliken_call) else None) \<and>
       data self' ''restricted_Mulliken'' =
         (if ?unr then None else value_of (table_result fs fname restricted_mulliken_call)) \<and>
       data self' ''final_energy'' =
         data (snd (read_pattern fs final_energy_patterns False False py_str (fresh fname)))
           ''final_energy'' \<and>
       data self' ''S2'' =
         (if ?unr
          then data (snd (read_pattern fs S2_patterns False False py_str (fresh fname))) ''S2''
          else None)"
    proof (intro allI impI)
      fix self'
      assume "init fs fname = Inr self'"
      with i have s: "self' = s" by simp
      show "journal fs fname = expected_calls text \<and>
       (Read_table_pattern GEN_SCFMAN_call \<in> set (journal fs fname) \<longleftrightarrow> ?gen) \<and>
       (Read_table_pattern SCF_call \<in> set (journal fs fname) \<longleftrightarrow> \<not> ?gen) \<and>
       (Read_table_pattern unrestricted_mulliken_call \<in> set (journal fs fname) \<longleftrightarrow> ?unr) \<and>
       (Read_table_pattern restricted_mulliken_call \<in> set (journal fs fname) \<longleftrightarrow> \<not> ?unr) \<and>
       (Read_pattern S2_patterns False False \<in> set (journal fs fname) \<longleftrightarrow> ?unr) \<and>
       Read_pattern final_energy_patterns False False \<in> set (journal fs fname) \<and>
       dom (data self') =
         {''unrestricted'', ''using_GEN_SCFMAN'', ''final_energy''} \<union>
         (if ?gen then {''GEN_SCFMAN''} else {''SCF''}) \<union>
         (if ?unr then {''unrestricted_Mulliken'', ''S2''} else {''restricted_Mulliken''}) \<and>
       data self' ''unrestricted'' =
         data (snd (read_pattern fs unrestricted_patterns False True py_str (fresh fname)))
           ''unrestricted'' \<and>
       data self' ''using_GEN_SCFMAN'' =
         data (snd (read_pattern fs using_GEN_SCFMAN_patterns False True py_str (fresh fname)))
           ''using_GEN_SCFMAN'' \<and>
       data self' ''GEN_SCFMAN'' =
         (if ?gen then value_of (table_result fs fname GEN_SCFMAN_call) else None) \<and>
       data self' ''SCF'' =
         (if ?gen then None else value_of (table_result fs fname SCF_call)) \<and>
       data self' ''unrestricted_Mulliken'' =
         (if ?unr then value_of (table_result fs fname unrestricted_mulliken_call) else None) \<and>
       data self' ''restricted_Mulliken'' =
         (if ?unr then None else value_of (table_result fs fname restricted_mulliken_call)) \<and>
       data self' ''final_energy'' =
         data (snd (read_pattern fs final_energy_patterns False False py_str (fresh fname)))
           ''final_energy'' \<and>
       data self' ''S2'' =
         (if ?unr
          then data (snd (read_pattern fs S2_patterns False False py_str (fresh fname))) ''S2''
          else None)"
        unfolding s j
        by (intro conjI refl m[THEN conjunct1] m[THEN conjunct2, THEN conjunct1]
            m[THEN conjunct2, THEN conjunct2, THEN conjunct1]
            m[THEN conjunct2, THEN conjunct2, THEN conjunct2, THEN conjunct1]
            m[THEN conjunct2, THEN conjunct2, THEN conjunct2, THEN conjunct2, THEN conjunct1]
            m[THEN conjunct2, THEN conjunct2, THEN conjunct2, THEN conjunct2, THEN conjunct2]
            d1 d2 d3 d4 d5 d6 d7 d8 d9)
    qed
    show ?thesis by (intro conjI c1 c2 c3)
  qed
qed

theorem init_selects_readers_witness:
  "[''qc.out'' \<mapsto> ex_output] ''qc.out'' = Some ex_output \<and>
   probe using_GEN_SCFMAN_patterns ex_output \<and>
   probe unrestricted_patterns ex_output \<and>
   init [''qc.out'' \<mapsto> ex_output] ''qc.out'' =
     Inr (projr (init [''qc.out'' \<mapsto> ex_output] ''qc.out'')) \<and>
   journal [''qc.out'' \<mapsto> ex_output] ''qc.out'' =
     [Read_pattern unrestricted_patterns False True,
      Read_pattern using_GEN_SCFMAN_patterns False True,
      Read_table_pattern GEN_SCFMAN_call,
      Read_table_pattern unrestricted_mulliken_call,
      Read_pattern final_energy_patterns False False,
      Read_pattern S2_patterns False False] \<and>
   Read_table_pattern SCF_call \<notin> set (journal [''qc.out'' \<mapsto> ex_output] ''qc.out'') \<and>
   Read_table_pattern restricted_mulliken_call
     \<notin> set (journal [''qc.out'' \<mapsto> ex_output] ''qc.out'') \<and>
   dom (data (projr (init [''qc.out'' \<mapsto> ex_output] ''qc.out''))) =
     {''unrestricted'', ''using_GEN_SCFMAN'', ''final_energy'', ''GEN_SCFMAN'',
      ''unrestricted_Mulliken'', ''S2''} \<and>
   map (data (projr (init [''qc.out'' \<mapsto> ex_output] ''qc.out'')))
     [''unrestricted'', ''using_GEN_SCFMAN'', ''GEN_SCFMAN'', ''SCF'', ''restricted_Mulliken'',
      ''unrestricted_Mulliken'', ''final_energy'', ''S2''] =
     [Some (PyList [PyList []]), Some (PyList [PyList []]),
      Some (PyList [PyList [PyList [Leaf ''-76.1'', Leaf ''1.0'', Leaf ''-02''],
                            PyList [Leaf ''-76.2'', Leaf ''1.0'', Leaf ''-03'']]]),
      None, None,
      Some (PyList [PyList [PyList [Leaf ''O'', Leaf ''-0.8'', Leaf ''1.0''],
                            PyList [Leaf ''H'', Leaf ''0.4'', Leaf ''0.0'']]]),
      Some (PyList [PyList [Leaf ''-76.2'']]), Some (PyList [PyList [Leaf ''0.75'']])] \<and>
   table_result [''qc.out'' \<mapsto> ex_output] ''qc.out'' GEN_SCFMAN_call =
     Inr (PyList [PyList [PyList [Leaf ''-76.1'', Leaf ''1.0'', Leaf ''-02''],
                          PyList [Leaf ''-76.2'', Leaf ''1.0'', Leaf ''-03'']]]) \<and>
   table_result [''qc.out'' \<mapsto> ex_output] ''qc.out'' unrestricted_mulliken_call =
     Inr (PyList [PyList [PyList [Leaf ''O'', Leaf ''-0.8'', Leaf ''1.0''],
                          PyList [Leaf ''H'', Leaf ''0.4'', Leaf ''0.0'']]])"
proof -
  let ?fs = "[''qc.out'' \<mapsto> ex_output]"
  let ?i = "init ?fs ''qc.out''"
  let ?keys = "[''unrestricted'', ''using_GEN_SCFMAN'', ''GEN_SCFMAN'', ''SCF'',
    ''restricted_Mulliken'', ''unrestricted_Mulliken'', ''final_energy'', ''S2'']"
  let ?gen_table = "PyList [PyList [PyList [Leaf ''-76.1'', Leaf ''1.0'', Leaf ''-02''],
                            PyList [Leaf ''-76.2'', Leaf ''1.0'', Leaf ''-03'']]]"
  let ?mul_table = "PyList [PyList [PyList [Leaf ''O'', Leaf ''-0.8'', Leaf ''1.0''],
                            PyList [Leaf ''H'', Leaf ''0.4'', Leaf ''0.0'']]]"
  let ?expected = "[Some (PyList [PyList []]), Some (PyList [PyList []]), Some ?gen_table,
      None, None, Some ?mul_table,
      Some (PyList [PyList [Leaf ''-76.2'']]), Some (PyList [PyList [Leaf ''0.75'']])]"
  have h1: "?fs ''qc.out'' = Some ex_output" by simp
  have ev: "(case init_run ?fs ''qc.out'' of
        (Inl e, w) \<Rightarrow> None
      | (Inr u, w) \<Rightarrow> Some (map (data (snd w)) ?keys)) = Some ?expected"
    by code_simp
  obtain r w where rw: "init_run ?fs ''qc.out'' = (r, w)" by (cases "init_run ?fs ''qc.out''")
  from ev rw have nl: "\<not> isl r" by (cases r) simp_all
  from ev rw have vs: "map (data (snd w)) ?keys = ?expected" by (cases r) simp_all
  from rw nl have i: "?i = Inr (snd w)" by (cases r) (simp_all add: init_def)
  then have h2: "?i = Inr (projr ?i)" by simp
  from i vs have vals: "map (data (projr ?i)) ?keys = ?expected" by simp
  have g: "probe using_GEN_SCFMAN_patterns ex_output" by code_simp
  have u: "probe unrestricted_patterns ex_output" by code_simp
  note t = init_selects_readers[where fs = ?fs, OF h1,
      THEN conjunct2, THEN conjunct2, THEN spec, THEN mp, OF h2]
  note t1 = t[THEN conjunct1] and r1 = t[THEN conjunct2]
  note r2 = r1[THEN conjunct2]
  note t3 = r2[THEN conjunct1] and r3 = r2[THEN conjunct2]
  note r4 = r3[THEN conjunct2]
  note t5 = r4[THEN conjunct1] and r5 = r4[THEN conjunct2]
  note r7 = r5[THEN conjunct2, THEN conjunct2]
  note t8 = r7[THEN conjunct1] and r8 = r7[THEN conjunct2]
  note r10 = r8[THEN conjunct2, THEN conjunct2]
  note t11 = r10[THEN conjunct1] and r11 = r10[THEN conjunct2]
  note t13 = r11[THEN conjunct2, THEN conjunct1]
  from t1 g u have jr: "journal ?fs ''qc.out'' =
     [Read_pattern unrestricted_patterns False True,
      Read_pattern using_GEN_SCFMAN_patterns False True,
      Read_table_pattern GEN_SCFMAN_call,
      Read_table_pattern unrestricted_mulliken_call,
      Read_pattern final_energy_patterns False False,
      Read_pattern S2_patterns False False]"
    by (simp add: expected_calls_def SCF_choice_def mulliken_choice_def)
  from t3 g have ns: "Read_table_pattern SCF_call \<notin> set (journal ?fs ''qc.out'')" by simp
  from t5 u have nr: "Read_table_pattern restricted_mulliken_call
      \<notin> set (journal ?fs ''qc.out'')" by simp
  from t8 g u have d: "dom (data (projr ?i)) =
     {''unrestricted'', ''using_GEN_SCFMAN'', ''final_energy'', ''GEN_SCFMAN'',
      ''unrestricted_Mulliken'', ''S2''}" by auto
  from vals have "data (projr ?i) ''GEN_SCFMAN'' = Some ?gen_table" by simp
  moreover from t11 g have "data (projr ?i) ''GEN_SCFMAN'' =
      value_of (table_result ?fs ''qc.out'' GEN_SCFMAN_call)" by simp
  ultimately have tg: "table_result ?fs ''qc.out'' GEN_SCFMAN_call = Inr ?gen_table"
    by (simp add: value_of_def split: sum.splits)
  from vals have "data (projr ?i) ''unrestricted_Mulliken'' = Some ?mul_table" by simp
  moreover from t13 u have "data (projr ?i) ''unrestricted_Mulliken'' =
      value_of (table_result ?fs ''qc.out'' unrestricted_mulliken_call)" by simp
  ultimately have tm: "table_result ?fs ''qc.out'' unrestricted_mulliken_call = Inr ?mul_table"
    by (simp add: value_of_def split: sum.splits)
  show ?thesis by (intro conjI h1 g u h2 jr ns nr d vals tg tm)
qed

end
